theory Spec2Isabelle
  imports Main "HOL-Library.Sublist"
begin

section \<open>Laravel-style resource route resolver\<close>

text \<open>
  A shallow embedding of \<^verbatim>\<open>src/laravelResourceRoute.ts\<close>. Strings are lists of
  8-bit characters, read as the UTF-8 bytes of the (well-formed) JavaScript string; all
  the characters the code tests for (\<^verbatim>\<open>.\<close>, \<^verbatim>\<open>/\<close>, braces, word characters,
  \<^verbatim>\<open>s\<close>, ...) are ASCII, so tests and slices agree on both readings. A thrown
  \<^verbatim>\<open>Error\<close> is a value of the type \<open>error\<close>, carrying what the message
  interpolates. The mutable \<^verbatim>\<open>Set\<close> of used keys is passed in and returned by
  the functions of the first model; a second model of the same functions keeps it as an
  object in a store.
\<close>

subsection \<open>Data model\<close>

datatype Action = Index | Create | Store | Show | Edit | Update | Destroy

datatype httpMethod = GET | POST | PUT | PATCH | DELETE

text \<open>
  The values a parameter can hold (\<^verbatim>\<open>unknown\<close> in the source). The code asks
  three things of a value: whether it is \<^verbatim>\<open>undefined\<close> or \<^verbatim>\<open>null\<close>, whether
  it is an array, and what \<^verbatim>\<open>String\<close> prints for it. A number is therefore given
  by the text that \<^verbatim>\<open>String\<close> prints for it (\<^verbatim>\<open>42\<close>, \<^verbatim>\<open>-7\<close>,
  \<^verbatim>\<open>1.5\<close>, \<^verbatim>\<open>1e+21\<close>, \<^verbatim>\<open>NaN\<close>), and so is every other value that is
  no array, such as an object or a function. Values whose conversion to a string throws
  are left out, and arrays have no holes.
\<close>

datatype jsval =
    JUndefined
  | JNull
  | JBool bool
  | JNum string
  | JStr string
  | JArr "jsval list"
  | JOther string

text \<open>
  A parameter object has its own enumerable properties, listed in the order in which
  they were created (for an object literal, the order in which they are written), and
  the properties that it inherits through its prototype chain. \<^verbatim>\<open>k in params\<close>
  and \<^verbatim>\<open>params[k]\<close> look at both, the own ones first; \<^verbatim>\<open>Object.entries\<close>
  lists the own ones only.
\<close>

record params =
  ownProps :: "(string \<times> jsval) list"
  protoProps :: "(string \<times> jsval) list"

record ResolverOptions =
  prefix :: "string option"
  resourceParam :: "string option"
  trailingSlash :: "bool option"
  baseUrl :: "string option"

datatype error =
    InvalidResource string string
  | InvalidAction string
  | MissingPrefixParam string
  | MissingIdentifierParam string string Action

subsection \<open>String primitives of the host language\<close>

definition endsWith :: "string \<Rightarrow> string \<Rightarrow> bool" where
  "endsWith s suf \<longleftrightarrow>
     length suf \<le> length s \<and> drop (length s - length suf) s = suf"

definition startsWith :: "string \<Rightarrow> string \<Rightarrow> bool" where
  "startsWith s pre \<longleftrightarrow> take (length pre) s = pre"

text \<open>\<^verbatim>\<open>s.slice(0, -n)\<close>: everything but the last \<open>n\<close> characters.\<close>

definition sliceEnd :: "string \<Rightarrow> nat \<Rightarrow> string" where
  "sliceEnd s n = take (length s - n) s"

text \<open>\<^verbatim>\<open>s.split(sep)\<close> for a one-character separator: never the empty array.\<close>

fun splitOn :: "char \<Rightarrow> string \<Rightarrow> string list" where
  "splitOn sep [] = [Nil]"
| "splitOn sep (c # cs) =
     (if c = sep then [] # splitOn sep cs
      else (case splitOn sep cs of
              [] \<Rightarrow> [c] # []
            | w # ws \<Rightarrow> (c # w) # ws))"

text \<open>\<^verbatim>\<open>parts.join(sep)\<close>.\<close>

fun joinWith :: "string \<Rightarrow> string list \<Rightarrow> string" where
  "joinWith sep [] = []"
| "joinWith sep [p] = p"
| "joinWith sep (p # q # ps) = p @ sep @ joinWith sep (q # ps)"

text \<open>The class \<^verbatim>\<open>\w\<close> of a regular expression without flags.\<close>

definition isWordChar :: "char \<Rightarrow> bool" where
  "isWordChar c \<longleftrightarrow>
     c \<in> set (''abcdefghijklmnopqrstuvwxyz'' @ ''ABCDEFGHIJKLMNOPQRSTUVWXYZ'' @ ''0123456789_'')"

definition hexDigit :: "nat \<Rightarrow> char" where
  "hexDigit n = ''0123456789ABCDEF'' ! (n mod 16)"

definition percentEncode :: "char \<Rightarrow> string" where
  "percentEncode c =
     [CHR ''%'', hexDigit ((of_char c :: nat) div 16), hexDigit ((of_char c :: nat) mod 16)]"

text \<open>
  \<^verbatim>\<open>encodeURIComponent\<close>: letters, digits and \<^verbatim>\<open>- _ . ! ~ * ' ( )\<close> are kept,
  every other byte is written as a percent escape.
\<close>

definition uriUnreserved :: "char \<Rightarrow> bool" where
  "uriUnreserved c \<longleftrightarrow>
     c \<in> set (''abcdefghijklmnopqrstuvwxyz'' @ ''ABCDEFGHIJKLMNOPQRSTUVWXYZ'' @
              ''0123456789'' @ ''-_.!~*'' @ [CHR 0x27] @ ''()'')"

definition encodeURIComponent :: "string \<Rightarrow> string" where
  "encodeURIComponent s =
     concat (map (\<lambda>c. if uriUnreserved c then [c] else percentEncode c) s)"

text \<open>
  The serializer behind \<^verbatim>\<open>URLSearchParams.toString\<close>
  (\<^verbatim>\<open>application/x-www-form-urlencoded\<close>): a space becomes \<^verbatim>\<open>+\<close>, letters,
  digits and \<^verbatim>\<open>* - . _\<close> are kept, every other byte is a percent escape; the pairs
  are written \<^verbatim>\<open>name=value\<close> and joined by \<^verbatim>\<open>&\<close>.
\<close>

definition formSafe :: "char \<Rightarrow> bool" where
  "formSafe c \<longleftrightarrow>
     c \<in> set (''abcdefghijklmnopqrstuvwxyz'' @ ''ABCDEFGHIJKLMNOPQRSTUVWXYZ'' @
              ''0123456789'' @ ''*-._'')"

definition formEncode :: "string \<Rightarrow> string" where
  "formEncode s =
     concat (map (\<lambda>c. if c = CHR '' '' then ''+''
                      else if formSafe c then [c] else percentEncode c) s)"

definition uspToString :: "(string \<times> string) list \<Rightarrow> string" where
  "uspToString pairs =
     joinWith ''&'' (map (\<lambda>(k, v). formEncode k @ ''='' @ formEncode v) pairs)"

text \<open>
  \<^verbatim>\<open>String(v)\<close>. An array prints its elements joined by commas, an absent
  element as the empty string.
\<close>

fun jsString :: "jsval \<Rightarrow> string" where
  "jsString JUndefined = ''undefined''"
| "jsString JNull = ''null''"
| "jsString (JBool b) = (if b then ''true'' else ''false'')"
| "jsString (JNum text) = text"
| "jsString (JStr s) = s"
| "jsString (JArr xs) =
     joinWith '','' (map (\<lambda>x. if x = JUndefined \<or> x = JNull then [] else jsString x) xs)"
| "jsString (JOther text) = text"

text \<open>\<^verbatim>\<open>k in params\<close>: an own or an inherited property.\<close>

definition hasKey :: "params \<Rightarrow> string \<Rightarrow> bool" where
  "hasKey ps k \<longleftrightarrow> k \<in> fst ` set (ownProps ps) \<or> k \<in> fst ` set (protoProps ps)"

text \<open>\<^verbatim>\<open>params[k]\<close>: the own property, else the inherited one, else \<^verbatim>\<open>undefined\<close>.\<close>

definition getParam :: "params \<Rightarrow> string \<Rightarrow> jsval" where
  "getParam ps k =
     (case map_of (ownProps ps) k of
        Some v \<Rightarrow> v
      | None \<Rightarrow> (case map_of (protoProps ps) k of None \<Rightarrow> JUndefined | Some v \<Rightarrow> v))"

text \<open>
  What an object literal inherits: the properties of \<^verbatim>\<open>Object.prototype\<close>. All of
  them are built-in functions, which \<^verbatim>\<open>String\<close> prints as below (the layout is the
  one of Node.js), but for \<^verbatim>\<open>__proto__\<close>, which reads as the prototype object itself.
\<close>

definition nativeCode :: "string \<Rightarrow> string" where
  "nativeCode name = ''function '' @ name @ ''() { [native code] }''"

definition objectPrototype :: "(string \<times> jsval) list" where
  "objectPrototype =
     [(''constructor'', JOther (nativeCode ''Object'')),
      (''__defineGetter__'', JOther (nativeCode ''__defineGetter__'')),
      (''__defineSetter__'', JOther (nativeCode ''__defineSetter__'')),
      (''hasOwnProperty'', JOther (nativeCode ''hasOwnProperty'')),
      (''__lookupGetter__'', JOther (nativeCode ''__lookupGetter__'')),
      (''__lookupSetter__'', JOther (nativeCode ''__lookupSetter__'')),
      (''isPrototypeOf'', JOther (nativeCode ''isPrototypeOf'')),
      (''propertyIsEnumerable'', JOther (nativeCode ''propertyIsEnumerable'')),
      (''toString'', JOther (nativeCode ''toString'')),
      (''valueOf'', JOther (nativeCode ''valueOf'')),
      (''__proto__'', JOther ''[object Object]''),
      (''toLocaleString'', JOther (nativeCode ''toLocaleString''))]"

text \<open>The object that a literal \<^verbatim>\<open>{k1: v1, ...}\<close> denotes; \<^verbatim>\<open>{}\<close> has no entry.\<close>

definition plainObject :: "(string \<times> jsval) list \<Rightarrow> params" where
  "plainObject props = \<lparr>ownProps = props, protoProps = objectPrototype\<rparr>"

text \<open>
  \<^verbatim>\<open>Object.entries(params)\<close>: the own properties whose key is an array index (the
  decimal notation, without leading zero, of a number below \<open>2\<^sup>3\<^sup>2 - 1\<close>) come first,
  by ascending number, the others follow in the order of their creation.
\<close>

definition isDigit :: "char \<Rightarrow> bool" where
  "isDigit c \<longleftrightarrow> c \<in> set ''0123456789''"

definition decimalValue :: "string \<Rightarrow> int" where
  "decimalValue k = foldl (\<lambda>n c. 10 * n + (of_char c - 48)) 0 k"

definition isArrayIndex :: "string \<Rightarrow> bool" where
  "isArrayIndex k \<longleftrightarrow>
     k \<noteq> [] \<and> list_all isDigit k \<and> (k = ''0'' \<or> take 1 k \<noteq> ''0'') \<and>
     decimalValue k < 4294967295"

definition objectEntries :: "params \<Rightarrow> (string \<times> jsval) list" where
  "objectEntries ps =
     sort_key (\<lambda>(k, v). decimalValue k) (filter (\<lambda>(k, v). isArrayIndex k) (ownProps ps)) @
     filter (\<lambda>(k, v). \<not> isArrayIndex k) (ownProps ps)"

subsection \<open>Method lookup\<close>

fun methodForAction :: "Action \<Rightarrow> httpMethod" where
  "methodForAction Index = GET"
| "methodForAction Create = GET"
| "methodForAction Show = GET"
| "methodForAction Edit = GET"
| "methodForAction Store = POST"
| "methodForAction Update = PUT"
| "methodForAction Destroy = DELETE"

subsection \<open>Helpers\<close>

definition isValidAction :: "string \<Rightarrow> bool" where
  "isValidAction x \<longleftrightarrow>
     x = ''index'' \<or> x = ''create'' \<or> x = ''store'' \<or> x = ''show'' \<or>
     x = ''edit'' \<or> x = ''update'' \<or> x = ''destroy''"

definition toSingular :: "string \<Rightarrow> string" where
  "toSingular plural =
     (if endsWith plural ''ies'' then sliceEnd plural 3 @ ''y''
      else if endsWith plural ''ses'' then sliceEnd plural 2
      else if endsWith plural ''s'' then sliceEnd plural 1
      else plural)"

definition isSlash :: "char \<Rightarrow> bool" where
  "isSlash c \<longleftrightarrow> c = CHR ''/''"

text \<open>\<^verbatim>\<open>s.replace(/^\/+|\/+$/g, "")\<close>: the slashes at both ends go.\<close>

definition trimSlashes :: "string \<Rightarrow> string" where
  "trimSlashes s = rev (dropWhile isSlash (rev (dropWhile isSlash s)))"

text \<open>
  \<^verbatim>\<open>s.replace(/\/{2,}/g, "/")\<close>: of every run of slashes one slash is left, so a
  slash that another slash follows is dropped.
\<close>

fun collapseSlashes :: "string \<Rightarrow> string" where
  "collapseSlashes [] = []"
| "collapseSlashes [c] = [c]"
| "collapseSlashes (c # d # cs) =
     (if isSlash c \<and> isSlash d then collapseSlashes (d # cs)
      else c # collapseSlashes (d # cs))"

definition joinUrl :: "string list \<Rightarrow> string" where
  "joinUrl parts =
     (let cleaned = map trimSlashes (filter (\<lambda>p. p \<noteq> []) parts);
          path = joinWith ''/'' cleaned;
          path' = (if \<not> startsWith path ''http'' \<and> \<not> startsWith path ''/''
                   then ''/'' @ path else path)
      in collapseSlashes path')"

text \<open>
  One attempt of the pattern \<^verbatim>\<open>\{(\w+)\}\<close> at the start of \<open>s\<close>: an opening
  brace, the longest run of word characters, which must not be empty, and a closing
  brace. The result is the captured key and the text after the match.
\<close>

definition matchToken :: "string \<Rightarrow> (string \<times> string) option" where
  "matchToken s =
     (case s of
        [] \<Rightarrow> None
      | c # t \<Rightarrow>
          if c \<noteq> CHR ''{'' then None
          else (let key = takeWhile isWordChar t; rest = dropWhile isWordChar t
                in (case rest of
                      [] \<Rightarrow> None
                    | d # rest' \<Rightarrow>
                        if key \<noteq> [] \<and> d = CHR ''}'' then Some (key, rest') else None)))"

text \<open>
  The global \<^verbatim>\<open>template.replace\<close> with its callback: from left to right, a match
  is replaced and the scan goes on behind it, any other character is copied. The
  callback throws for a key that is not in \<open>params\<close>, which ends the scan.
\<close>

function replaceAll :: "string \<Rightarrow> params \<Rightarrow> string set \<Rightarrow> error + (string \<times> string set)" where
  "replaceAll [] ps used = Inr ([], used)"
| "replaceAll (c # cs) ps used =
     (case matchToken (c # cs) of
        Some (key, rest) \<Rightarrow>
          if \<not> hasKey ps key then Inl (MissingPrefixParam key)
          else (case replaceAll rest ps (insert key used) of
                  Inl e \<Rightarrow> Inl e
                | Inr (out, used') \<Rightarrow>
                    Inr (encodeURIComponent (jsString (getParam ps key)) @ out, used'))
      | None \<Rightarrow>
          (case replaceAll cs ps used of
             Inl e \<Rightarrow> Inl e
           | Inr (out, used') \<Rightarrow> Inr (c # out, used')))"
  by pat_completeness auto
termination
proof (relation "measure (\<lambda>(s, ps, used). length s)")
  show "wf (measure (\<lambda>(s, ps, used). length s))"
    by simp
next
  fix c :: char and cs :: string and ps :: params and used :: "string set"
    and x2 :: "string \<times> string" and key rest :: string
  assume m: "matchToken (c # cs) = Some x2" and x: "(key, rest) = x2"
  from m x have "dropWhile isWordChar cs = CHR ''}'' # rest"
    by (auto simp: matchToken_def Let_def split: if_splits list.splits)
  then have "length rest < length (dropWhile isWordChar cs)"
    by simp
  moreover have "length (dropWhile isWordChar cs) \<le> length cs"
    by (rule length_dropWhile_le)
  ultimately show "((rest, ps, insert key used), (c # cs, ps, used))
      \<in> measure (\<lambda>(s, ps, used). length s)"
    by simp
next
  fix c :: char and cs :: string and ps :: params and used :: "string set"
  show "((cs, ps, used), (c # cs, ps, used)) \<in> measure (\<lambda>(s, ps, used). length s)"
    by simp
qed

definition replaceTokens :: "string \<Rightarrow> params \<Rightarrow> string set \<Rightarrow> error + (string \<times> string set)" where
  "replaceTokens template ps used =
     (if template = [] then Inr ([], used)
      else (case replaceAll template ps used of
              Inl e \<Rightarrow> Inl e
            | Inr (out, used') \<Rightarrow> Inr (trimSlashes out, used')))"

definition needsId :: "Action \<Rightarrow> bool" where
  "needsId action \<longleftrightarrow> action \<in> set [Show, Edit, Update, Destroy]"

text \<open>
  \<^verbatim>\<open>candidateKeys.find((k) => k in params)\<close> gives the first candidate that is a
  key of \<open>params\<close>, and \<^verbatim>\<open>if (!key)\<close> throws when there is none and also
  when the key found is the empty string.
\<close>

definition actionToPath ::
    "Action \<Rightarrow> string \<Rightarrow> params \<Rightarrow> string set \<Rightarrow> error + (string \<times> string set)" where
  "actionToPath action singular ps used =
     (case (if needsId action
            then (case find (hasKey ps) [singular, ''id''] of
                    None \<Rightarrow> Inl (MissingIdentifierParam singular ''id'' action)
                  | Some key \<Rightarrow>
                      if key = [] then Inl (MissingIdentifierParam singular ''id'' action)
                      else Inr (''/'' @ encodeURIComponent (jsString (getParam ps key)),
                                insert key used))
            else Inr ([], used)) of
        Inl e \<Rightarrow> Inl e
      | Inr (idSegment, used') \<Rightarrow>
          Inr (case action of
                 Index \<Rightarrow> []
               | Create \<Rightarrow> ''/create''
               | Store \<Rightarrow> []
               | Show \<Rightarrow> idSegment
               | Edit \<Rightarrow> idSegment @ ''/edit''
               | Update \<Rightarrow> idSegment
               | Destroy \<Rightarrow> idSegment,
               used'))"

text \<open>The pairs appended to the \<^verbatim>\<open>URLSearchParams\<close> for one entry.\<close>

fun entryPairs :: "string \<times> jsval \<Rightarrow> (string \<times> string) list" where
  "entryPairs (k, JArr items) = map (\<lambda>item. (k @ ''[]'', jsString item)) items"
| "entryPairs (k, v) = [(k, jsString v)]"

definition buildQueryString :: "params \<Rightarrow> string set \<Rightarrow> string" where
  "buildQueryString ps used =
     (let entries = filter (\<lambda>(k, v). k \<notin> used \<and> v \<noteq> JUndefined \<and> v \<noteq> JNull)
                      (objectEntries ps)
      in if entries = [] then []
         else uspToString (concat (map entryPairs entries)))"

subsection \<open>The route function and the resolver factory\<close>

text \<open>
  The array destructuring \<^verbatim>\<open>const [res, action] = name.split(".")\<close> reads the
  elements 0 and 1 of the array, \<^verbatim>\<open>undefined\<close> where the array is shorter; a
  template literal prints \<^verbatim>\<open>undefined\<close> as that word.
\<close>

fun nthOpt :: "'a list \<Rightarrow> nat \<Rightarrow> 'a option" where
  "nthOpt [] n = None"
| "nthOpt (x # xs) 0 = Some x"
| "nthOpt (x # xs) (Suc n) = nthOpt xs n"

fun interpolate :: "string option \<Rightarrow> string" where
  "interpolate None = ''undefined''"
| "interpolate (Some s) = s"

text \<open>The type guard narrows the string to the \<open>Action\<close> it spells.\<close>

definition asAction :: "string \<Rightarrow> Action option" where
  "asAction x =
     (if x = ''index'' then Some Index
      else if x = ''create'' then Some Create
      else if x = ''store'' then Some Store
      else if x = ''show'' then Some Show
      else if x = ''edit'' then Some Edit
      else if x = ''update'' then Some Update
      else if x = ''destroy'' then Some Destroy
      else None)"

text \<open>
  The closure \<^verbatim>\<open>route\<close>; the variables it captures (\<open>resource\<close>, \<open>prefix\<close>,
  \<open>singular\<close>, \<open>trailingSlash\<close>, \<open>baseUrl\<close>) are its first five arguments.
\<close>

definition route ::
    "string \<Rightarrow> string \<Rightarrow> string \<Rightarrow> bool \<Rightarrow> string \<Rightarrow> string \<Rightarrow> params \<Rightarrow> error + string" where
  "route resource prefix' singular trailingSlash' baseUrl' name ps =
     (let segs = splitOn CHR ''.'' name;
          res = nthOpt segs 0;
          action = nthOpt segs 1
      in if res \<noteq> Some resource then Inl (InvalidResource resource (interpolate res))
         else (case (case action of None \<Rightarrow> None | Some a \<Rightarrow>
                       if isValidAction a then asAction a else None) of
                 None \<Rightarrow> Inl (InvalidAction (interpolate action))
               | Some act \<Rightarrow>
                   (case replaceTokens prefix' ps {} of
                      Inl e \<Rightarrow> Inl e
                    | Inr (prefixPath, used1) \<Rightarrow>
                        (let root = ''/'' @ trimSlashes resource
                         in (case actionToPath act singular ps used1 of
                               Inl e \<Rightarrow> Inl e
                             | Inr (rel, used2) \<Rightarrow>
                                 (let url = joinUrl [baseUrl', prefixPath, root, rel];
                                      url' = (if trailingSlash' \<and> \<not> endsWith url ''/''
                                              then url @ ''/'' else url);
                                      qs = buildQueryString ps used2
                                  in Inr (if qs \<noteq> [] then url' @ ''?'' @ qs else url')))))))"

definition createLaravelResourceResolver ::
    "string \<Rightarrow> ResolverOptions \<Rightarrow> string \<Rightarrow> params \<Rightarrow> error + string" where
  "createLaravelResourceResolver resource opts =
     (let prefix' = (case prefix opts of None \<Rightarrow> [] | Some p \<Rightarrow> p);
          trailingSlash' = (case trailingSlash opts of None \<Rightarrow> False | Some b \<Rightarrow> b);
          baseUrl' = (case baseUrl opts of None \<Rightarrow> [] | Some b \<Rightarrow> b);
          singular = (case resourceParam opts of None \<Rightarrow> toSingular resource | Some p \<Rightarrow> p)
      in route resource prefix' singular trailingSlash' baseUrl')"

subsection \<open>The used keys as an object in a store\<close>

text \<open>
  In the source the used keys are one mutable \<^verbatim>\<open>Set\<close> object: \<^verbatim>\<open>route\<close>
  creates it with \<^verbatim>\<open>new Set\<close>, the helpers receive a reference and add to it in
  place. The functions of this subsection follow the code at that level: a store maps
  addresses to the contents of the sets allocated so far, an allocation takes the next
  free address, and every function returns the store it leaves behind, also when it
  throws.
\<close>

record store =
  cells :: "nat \<Rightarrow> string set"
  nextFree :: nat

definition newSet :: "store \<Rightarrow> nat \<times> store" where
  "newSet h = (nextFree h, h\<lparr>cells := (cells h)(nextFree h := {}), nextFree := Suc (nextFree h)\<rparr>)"

definition setAdd :: "nat \<Rightarrow> string \<Rightarrow> store \<Rightarrow> store" where
  "setAdd a k h = h\<lparr>cells := (cells h)(a := insert k (cells h a))\<rparr>"

definition setHas :: "nat \<Rightarrow> string \<Rightarrow> store \<Rightarrow> bool" where
  "setHas a k h \<longleftrightarrow> k \<in> cells h a"

function replaceAllH :: "string \<Rightarrow> params \<Rightarrow> nat \<Rightarrow> store \<Rightarrow> (error + string) \<times> store" where
  "replaceAllH [] ps used h = (Inr [], h)"
| "replaceAllH (c # cs) ps used h =
     (case matchToken (c # cs) of
        Some (key, rest) \<Rightarrow>
          if \<not> hasKey ps key then (Inl (MissingPrefixParam key), h)
          else (case replaceAllH rest ps used (setAdd used key h) of
                  (Inl e, h') \<Rightarrow> (Inl e, h')
                | (Inr out, h') \<Rightarrow>
                    (Inr (encodeURIComponent (jsString (getParam ps key)) @ out), h'))
      | None \<Rightarrow>
          (case replaceAllH cs ps used h of
             (Inl e, h') \<Rightarrow> (Inl e, h')
           | (Inr out, h') \<Rightarrow> (Inr (c # out), h')))"
  by pat_completeness auto
termination
proof (relation "measure (\<lambda>(s, ps, used, h). length s)")
  show "wf (measure (\<lambda>(s, ps, used, h). length s))"
    by simp
next
  fix c :: char and cs :: string and ps :: params and used :: nat and h :: store
    and x2 :: "string \<times> string" and key rest :: string
  assume m: "matchToken (c # cs) = Some x2" and x: "(key, rest) = x2"
  from m x have "dropWhile isWordChar cs = CHR ''}'' # rest"
    by (auto simp: matchToken_def Let_def split: if_splits list.splits)
  then have "length rest < length (dropWhile isWordChar cs)"
    by simp
  moreover have "length (dropWhile isWordChar cs) \<le> length cs"
    by (rule length_dropWhile_le)
  ultimately show "((rest, ps, used, setAdd used key h), (c # cs, ps, used, h))
      \<in> measure (\<lambda>(s, ps, used, h). length s)"
    by simp
next
  fix c :: char and cs :: string and ps :: params and used :: nat and h :: store
  show "((cs, ps, used, h), (c # cs, ps, used, h)) \<in> measure (\<lambda>(s, ps, used, h). length s)"
    by simp
qed

definition replaceTokensH :: "string \<Rightarrow> params \<Rightarrow> nat \<Rightarrow> store \<Rightarrow> (error + string) \<times> store" where
  "replaceTokensH template ps used h =
     (if template = [] then (Inr [], h)
      else (case replaceAllH template ps used h of
              (Inl e, h') \<Rightarrow> (Inl e, h')
            | (Inr out, h') \<Rightarrow> (Inr (trimSlashes out), h')))"

definition actionToPathH ::
    "Action \<Rightarrow> string \<Rightarrow> params \<Rightarrow> nat \<Rightarrow> store \<Rightarrow> (error + string) \<times> store" where
  "actionToPathH action singular ps used h =
     (case (if needsId action
            then (case find (hasKey ps) [singular, ''id''] of
                    None \<Rightarrow> (Inl (MissingIdentifierParam singular ''id'' action), h)
                  | Some key \<Rightarrow>
                      if key = [] then (Inl (MissingIdentifierParam singular ''id'' action), h)
                      else (Inr (''/'' @ encodeURIComponent (jsString (getParam ps key))),
                            setAdd used key h))
            else (Inr [], h)) of
        (Inl e, h') \<Rightarrow> (Inl e, h')
      | (Inr idSegment, h') \<Rightarrow>
          (Inr (case action of
                  Index \<Rightarrow> []
                | Create \<Rightarrow> ''/create''
                | Store \<Rightarrow> []
                | Show \<Rightarrow> idSegment
                | Edit \<Rightarrow> idSegment @ ''/edit''
                | Update \<Rightarrow> idSegment
                | Destroy \<Rightarrow> idSegment),
           h'))"

definition buildQueryStringH :: "params \<Rightarrow> nat \<Rightarrow> store \<Rightarrow> string" where
  "buildQueryStringH ps used h =
     (let entries = filter (\<lambda>(k, v). \<not> setHas used k h \<and> v \<noteq> JUndefined \<and> v \<noteq> JNull)
                      (objectEntries ps)
      in if entries = [] then []
         else uspToString (concat (map entryPairs entries)))"

definition routeH ::
    "string \<Rightarrow> string \<Rightarrow> string \<Rightarrow> bool \<Rightarrow> string \<Rightarrow> string \<Rightarrow> params \<Rightarrow> store
       \<Rightarrow> (error + string) \<times> store" where
  "routeH resource prefix' singular trailingSlash' baseUrl' name ps h =
     (let segs = splitOn CHR ''.'' name;
          res = nthOpt segs 0;
          action = nthOpt segs 1
      in if res \<noteq> Some resource then (Inl (InvalidResource resource (interpolate res)), h)
         else (case (case action of None \<Rightarrow> None | Some a \<Rightarrow>
                       if isValidAction a then asAction a else None) of
                 None \<Rightarrow> (Inl (InvalidAction (interpolate action)), h)
               | Some act \<Rightarrow>
                   (case newSet h of
                      (usedKeys, h0) \<Rightarrow>
                        (case replaceTokensH prefix' ps usedKeys h0 of
                           (Inl e, h1) \<Rightarrow> (Inl e, h1)
                         | (Inr prefixPath, h1) \<Rightarrow>
                             (let root = ''/'' @ trimSlashes resource
                              in (case actionToPathH act singular ps usedKeys h1 of
                                    (Inl e, h2) \<Rightarrow> (Inl e, h2)
                                  | (Inr rel, h2) \<Rightarrow>
                                      (let url = joinUrl [baseUrl', prefixPath, root, rel];
                                           url' = (if trailingSlash' \<and> \<not> endsWith url ''/''
                                                   then url @ ''/'' else url);
                                           qs = buildQueryStringH ps usedKeys h2
                                       in (Inr (if qs \<noteq> [] then url' @ ''?'' @ qs else url'),
                                           h2))))))))"

definition createLaravelResourceResolverH ::
    "string \<Rightarrow> ResolverOptions \<Rightarrow> string \<Rightarrow> params \<Rightarrow> store \<Rightarrow> (error + string) \<times> store" where
  "createLaravelResourceResolverH resource opts =
     (let prefix' = (case prefix opts of None \<Rightarrow> [] | Some p \<Rightarrow> p);
          trailingSlash' = (case trailingSlash opts of None \<Rightarrow> False | Some b \<Rightarrow> b);
          baseUrl' = (case baseUrl opts of None \<Rightarrow> [] | Some b \<Rightarrow> b);
          singular = (case resourceParam opts of None \<Rightarrow> toSingular resource | Some p \<Rightarrow> p)
      in routeH resource prefix' singular trailingSlash' baseUrl')"

subsection \<open>Notions used to state the properties\<close>

text \<open>
  The keys of the placeholders of a template, from left to right: what the scan of
  \<open>replaceAll\<close> takes for a \<^verbatim>\<open>{identifier}\<close> token.
\<close>

function tokenKeys :: "string \<Rightarrow> string list" where
  "tokenKeys [] = []"
| "tokenKeys (c # cs) =
     (case matchToken (c # cs) of
        Some (key, rest) \<Rightarrow> key # tokenKeys rest
      | None \<Rightarrow> tokenKeys cs)"
  by pat_completeness auto
termination
proof (relation "measure length")
  show "wf (measure length)"
    by simp
next
  fix c :: char and cs :: string and x2 :: "string \<times> string" and key rest :: string
  assume m: "matchToken (c # cs) = Some x2" and x: "(key, rest) = x2"
  from m x have "dropWhile isWordChar cs = CHR ''}'' # rest"
    by (auto simp: matchToken_def Let_def split: if_splits list.splits)
  then have "length rest < length (dropWhile isWordChar cs)"
    by simp
  moreover have "length (dropWhile isWordChar cs) \<le> length cs"
    by (rule length_dropWhile_le)
  ultimately show "(rest, c # cs) \<in> measure length"
    by simp
next
  fix c :: char and cs :: string
  show "(cs, c # cs) \<in> measure length"
    by simp
qed

text \<open>The key under which an identifier-bound action finds its identifier.\<close>

definition identifierKey :: "string \<Rightarrow> params \<Rightarrow> string" where
  "identifierKey singular ps = (if hasKey ps singular then singular else ''id'')"

text \<open>The keys that the construction of the path consumes.\<close>

definition consumedKeys :: "string \<Rightarrow> string \<Rightarrow> Action \<Rightarrow> params \<Rightarrow> string set" where
  "consumedKeys template singular action ps =
     set (tokenKeys template) \<union> (if needsId action then {identifierKey singular ps} else {})"

text \<open>
  Two results in sequence: the second starts from the used keys that the first leaves,
  and the texts are put one after the other.
\<close>

definition andThen ::
    "error + (string \<times> string set) \<Rightarrow> (string set \<Rightarrow> error + (string \<times> string set))
       \<Rightarrow> error + (string \<times> string set)" where
  "andThen r f =
     (case r of
        Inl e \<Rightarrow> Inl e
      | Inr (a, u) \<Rightarrow> (case f u of Inl e \<Rightarrow> Inl e | Inr (b, u') \<Rightarrow> Inr (a @ b, u')))"

definition opensToken :: "string \<Rightarrow> bool" where
  "opensToken r \<longleftrightarrow> (\<exists>s. r = CHR ''{'' # s)"

text \<open>
  A result over the store agrees with a state-passing result: the same error, or the
  same text with the set at the given address holding the used keys returned.
\<close>

definition agrees ::
    "nat \<Rightarrow> (error + string) \<times> store \<Rightarrow> error + (string \<times> string set) \<Rightarrow> bool" where
  "agrees a res pure \<longleftrightarrow>
     (case pure of
        Inl e \<Rightarrow> fst res = Inl e
      | Inr (out, u) \<Rightarrow> fst res = Inr out \<and> cells (snd res) a = u)"

section \<open>Properties\<close>

text \<open>
  The equations of the scanning functions are unfolded on demand only: the second one
  rewrites every template that starts with a character.
\<close>

declare replaceAll.simps(2) [simp del]
declare tokenKeys.simps(2) [simp del]
declare replaceAllH.simps(2) [simp del]

subsection \<open>Auxiliary facts about the string primitives\<close>

lemma endsWith_append: "endsWith (stem @ suf) suf"
  by (simp add: endsWith_def)

lemma endsWith_iff: "endsWith s suf \<longleftrightarrow> (\<exists>stem. s = stem @ suf)"
proof
  assume "endsWith s suf"
  then have "s = take (length s - length suf) s @ suf"
    by (metis append_take_drop_id endsWith_def)
  then show "\<exists>stem. s = stem @ suf" ..
next
  assume "\<exists>stem. s = stem @ suf"
  then show "endsWith s suf"
    by (auto simp: endsWith_def)
qed

lemma sliceEnd_append: "length suf = n \<Longrightarrow> sliceEnd (stem @ suf) n = stem"
  by (simp add: sliceEnd_def)

lemma splitOn_first: "\<exists>w ws. splitOn sep s = w # ws \<and> sep \<notin> set w"
  by (induction s) (auto split: list.splits)

lemma nthOpt_splitOn_0: "\<exists>w. nthOpt (splitOn sep s) 0 = Some w \<and> sep \<notin> set w"
proof -
  obtain w ws where "splitOn sep s = w # ws" "sep \<notin> set w"
    using splitOn_first by blast
  then show ?thesis by simp
qed

subsection \<open>Method lookup\<close>

text \<open>
  C7. \<open>methodForAction\<close> is the fixed table: index, create, show and edit give GET,
  store gives POST, update gives PUT, destroy gives DELETE; PATCH is the result for no
  action.
\<close>

theorem methodForAction_fixed_mapping:
  "methodForAction Index = GET \<and> methodForAction Create = GET \<and>
   methodForAction Show = GET \<and> methodForAction Edit = GET \<and>
   methodForAction Store = POST \<and> methodForAction Update = PUT \<and>
   methodForAction Destroy = DELETE \<and> (\<forall>a. methodForAction a \<noteq> PATCH)"
proof -
  have "methodForAction a \<noteq> PATCH" for a
    by (cases a) simp_all
  then show ?thesis by simp
qed

subsection \<open>Singularization\<close>

lemma toSingular_ies: "toSingular (stem @ ''ies'') = stem @ ''y''"
  by (simp add: toSingular_def endsWith_def sliceEnd_def)

lemma toSingular_ses: "toSingular (stem @ ''ses'') = stem @ ''s''"
proof -
  have "\<not> endsWith (stem @ ''ses'') ''ies''"
    by (simp add: endsWith_def)
  moreover have "endsWith (stem @ ''ses'') ''ses''"
    by (simp add: endsWith_def)
  moreover have "sliceEnd (stem @ ''ses'') 2 = stem @ ''s''"
    by (simp add: sliceEnd_def)
  ultimately show ?thesis
    by (simp add: toSingular_def)
qed

lemma toSingular_s:
  assumes "\<not> endsWith (stem @ ''s'') ''ies''" "\<not> endsWith (stem @ ''s'') ''ses''"
  shows "toSingular (stem @ ''s'') = stem"
  using assms by (simp add: toSingular_def endsWith_append sliceEnd_append)

lemma toSingular_other:
  assumes "\<not> endsWith s ''s''"
  shows "toSingular s = s"
proof -
  have "\<not> endsWith s ''ies''" "\<not> endsWith s ''ses''"
    using assms by (auto simp: endsWith_iff)
  with assms show ?thesis by (simp add: toSingular_def)
qed

text \<open>
  C6. The singular form of a resource name, by priority: a name ending in \<^verbatim>\<open>ies\<close>
  has that suffix replaced by \<^verbatim>\<open>y\<close>; otherwise a name ending in \<^verbatim>\<open>ses\<close> loses
  its last two characters; otherwise a name ending in \<^verbatim>\<open>s\<close> loses that character;
  any other name is unchanged. The factory hands the route function the explicit
  \<open>resourceParam\<close> when there is one, and the derived singular only when there is none.
\<close>

theorem toSingular_priority:
  "(s = stem @ ''ies'' \<longrightarrow> toSingular s = stem @ ''y'') \<and>
   (s = stem @ ''ses'' \<longrightarrow> toSingular s = stem @ ''s'') \<and>
   (s = stem @ ''s'' \<and> (\<nexists>t. s = t @ ''ies'') \<and> (\<nexists>t. s = t @ ''ses'')
      \<longrightarrow> toSingular s = stem) \<and>
   ((\<nexists>t. s = t @ ''s'') \<longrightarrow> toSingular s = s) \<and>
   createLaravelResourceResolver resource opts =
     route resource
       (case prefix opts of None \<Rightarrow> [] | Some p \<Rightarrow> p)
       (case resourceParam opts of None \<Rightarrow> toSingular resource | Some p \<Rightarrow> p)
       (case trailingSlash opts of None \<Rightarrow> False | Some b \<Rightarrow> b)
       (case baseUrl opts of None \<Rightarrow> [] | Some b \<Rightarrow> b)"
proof -
  have "s = stem @ ''ies'' \<longrightarrow> toSingular s = stem @ ''y''"
    by (simp add: toSingular_ies)
  moreover have "s = stem @ ''ses'' \<longrightarrow> toSingular s = stem @ ''s''"
    by (simp add: toSingular_ses)
  moreover have "s = stem @ ''s'' \<and> (\<nexists>t. s = t @ ''ies'') \<and> (\<nexists>t. s = t @ ''ses'')
      \<longrightarrow> toSingular s = stem"
  proof (intro impI, elim conjE)
    assume s: "s = stem @ ''s''" and "\<nexists>t. s = t @ ''ies''" and "\<nexists>t. s = t @ ''ses''"
    then have "\<not> endsWith (stem @ ''s'') ''ies''" "\<not> endsWith (stem @ ''s'') ''ses''"
      unfolding endsWith_iff by blast+
    then show "toSingular s = stem"
      unfolding s by (rule toSingular_s)
  qed
  moreover have "(\<nexists>t. s = t @ ''s'') \<longrightarrow> toSingular s = s"
    using toSingular_other [of s] by (simp add: endsWith_iff)
  moreover have "createLaravelResourceResolver resource opts =
     route resource
       (case prefix opts of None \<Rightarrow> [] | Some p \<Rightarrow> p)
       (case resourceParam opts of None \<Rightarrow> toSingular resource | Some p \<Rightarrow> p)
       (case trailingSlash opts of None \<Rightarrow> False | Some b \<Rightarrow> b)
       (case baseUrl opts of None \<Rightarrow> [] | Some b \<Rightarrow> b)"
    by (simp add: createLaravelResourceResolver_def Let_def)
  ultimately show ?thesis by blast
qed

theorem toSingular_priority_witness:
  "toSingular ''categories'' = ''category'' \<and> toSingular ''classes'' = ''class'' \<and>
   toSingular ''photos'' = ''photo'' \<and> toSingular ''sheep'' = ''sheep''"
proof -
  have not_ies: "\<nexists>t. ''photos'' = t @ ''ies''"
    using endsWith_iff [of "''photos''" "''ies''"] by (simp add: endsWith_def)
  have not_ses: "\<nexists>t. ''photos'' = t @ ''ses''"
    using endsWith_iff [of "''photos''" "''ses''"] by (simp add: endsWith_def)
  have not_s: "\<nexists>t. ''sheep'' = t @ ''s''"
    using endsWith_iff [of "''sheep''" "''s''"] by (simp add: endsWith_def)
  have "toSingular ''categories'' = ''category''"
    using toSingular_priority [of "''categories''" "''categor''"] by simp
  moreover have "toSingular ''classes'' = ''class''"
    using toSingular_priority [of "''classes''" "''clas''"] by simp
  moreover have "toSingular ''photos'' = ''photo''"
    using toSingular_priority [of "''photos''" "''photo''"] not_ies not_ses by simp
  moreover have "toSingular ''sheep'' = ''sheep''"
    using toSingular_priority [of "''sheep''"] not_s by simp
  ultimately show ?thesis by simp
qed

subsection \<open>Parsing of the route name\<close>

text \<open>
  C10. A resource name that contains a dot matches no route name: whatever the name and
  the parameters, the route function of such a resolver fails with the error of a wrong
  resource, since the text before the first dot of the name has no dot.
\<close>

theorem dotted_resource_never_matches:
  assumes "CHR ''.'' \<in> set resource"
  shows "\<exists>got. createLaravelResourceResolver resource opts name ps
           = Inl (InvalidResource resource got)"
proof -
  obtain w where w: "nthOpt (splitOn CHR ''.'' name) 0 = Some w" "CHR ''.'' \<notin> set w"
    using nthOpt_splitOn_0 by blast
  with assms have "w \<noteq> resource" by auto
  with w show ?thesis
    by (simp add: createLaravelResourceResolver_def route_def Let_def)
qed

theorem dotted_resource_never_matches_witness:
  "CHR ''.'' \<in> set ''a.b'' \<and>
   (\<exists>got. createLaravelResourceResolver ''a.b''
        \<lparr>prefix = None, resourceParam = None, trailingSlash = None, baseUrl = None\<rparr>
        ''a.b.index'' (plainObject []) = Inl (InvalidResource ''a.b'' got))"
proof -
  have h: "CHR ''.'' \<in> set ''a.b''" by simp
  from dotted_resource_never_matches [OF h] show ?thesis
    using h by blast
qed

text \<open>
  C3. The name \<^verbatim>\<open>R.show.extra\<close> is accepted: \<^verbatim>\<open>split\<close> cuts at every dot and
  the destructuring reads the first two pieces only, so the action is \<^verbatim>\<open>show\<close>
  and the third piece is never looked at.
\<close>

theorem extra_segment_accepted:
  "createLaravelResourceResolver ''R''
     \<lparr>prefix = None, resourceParam = None, trailingSlash = None, baseUrl = None\<rparr>
     ''R.show.extra'' (plainObject [(''id'', JNum ''1'')])
   = Inr ''/R/1''"
  by code_simp

subsection \<open>Joining\<close>

text \<open>
  C2. With the base URL \<^verbatim>\<open>https://api.example.com\<close> and a trailing slash asked
  for, \<^verbatim>\<open>R.index\<close> resolves to \<^verbatim>\<open>https:/api.example.com/R/\<close>: the last step of
  the joining collapses the two slashes of the scheme as it does every other run.
\<close>

theorem base_url_scheme_collapsed:
  "createLaravelResourceResolver ''R''
     \<lparr>prefix = None, resourceParam = None, trailingSlash = Some True,
      baseUrl = Some ''https://api.example.com''\<rparr> ''R.index'' (plainObject [])
   = Inr ''https:/api.example.com/R/''"
  by code_simp

subsection \<open>The identifier of a resource\<close>

text \<open>
  C1. For the resource \<^verbatim>\<open>s\<close> the derived singular key is the empty string. A call
  of \<^verbatim>\<open>s.show\<close> whose parameters hold a value under that key finds the key, and
  then fails as if no key had been found, since the test \<^verbatim>\<open>!key\<close> is also true of
  the empty string.
\<close>

theorem empty_key_rejected:
  "createLaravelResourceResolver ''s''
     \<lparr>prefix = None, resourceParam = None, trailingSlash = None, baseUrl = None\<rparr>
     ''s.show'' (plainObject [('''', JNum ''5'')])
   = Inl (MissingIdentifierParam '''' ''id'' Show)"
  by code_simp

subsection \<open>Substitution of the prefix placeholders\<close>

lemma not_word_braces: "\<not> isWordChar CHR ''{''" "\<not> isWordChar CHR ''}''"
  by (simp_all add: isWordChar_def)

lemma matchToken_token:
  assumes "key \<noteq> []" "\<forall>c\<in>set key. isWordChar c"
  shows "matchToken (CHR ''{'' # key @ CHR ''}'' # post) = Some (key, post)"
proof -
  have "takeWhile isWordChar (key @ CHR ''}'' # post) = key"
    using assms(2) by (simp add: not_word_braces)
  moreover have "dropWhile isWordChar (key @ CHR ''}'' # post) = CHR ''}'' # post"
    using assms(2) by (simp add: not_word_braces)
  ultimately show ?thesis
    using assms(1) by (simp add: matchToken_def)
qed

lemma matchToken_not_brace: "c \<noteq> CHR ''{'' \<Longrightarrow> matchToken (c # s) = None"
  by (simp add: matchToken_def)

lemma matchToken_append_brace:
  assumes "opensToken r"
  shows "matchToken (c # cs @ r) = map_option (\<lambda>(k, t). (k, t @ r)) (matchToken (c # cs))"
proof -
  from assms obtain s where r: "r = CHR ''{'' # s"
    by (auto simp: opensToken_def)
  show ?thesis
  proof (cases "\<forall>x\<in>set cs. isWordChar x")
    case True
    then have tw: "takeWhile isWordChar (cs @ r) = cs"
      and dw: "dropWhile isWordChar (cs @ r) = r"
      and dw0: "dropWhile isWordChar cs = []"
      by (simp_all add: r not_word_braces)
    show ?thesis
      by (simp add: matchToken_def tw dw dw0, simp add: r)
  next
    case False
    then obtain x where "x \<in> set cs" "\<not> isWordChar x" by blast
    then have tw: "takeWhile isWordChar (cs @ r) = takeWhile isWordChar cs"
      and dw: "dropWhile isWordChar (cs @ r) = dropWhile isWordChar cs @ r"
      by simp_all
    from False obtain d rest where dw0: "dropWhile isWordChar cs = d # rest"
      by (cases "dropWhile isWordChar cs") auto
    show ?thesis
      by (simp add: matchToken_def Let_def tw dw dw0)
  qed
qed

lemma andThen_simps:
  "andThen (Inl e) f = Inl e"
  "andThen (Inr (a, u)) f = (case f u of Inl e \<Rightarrow> Inl e | Inr (b, u') \<Rightarrow> Inr (a @ b, u'))"
  by (simp_all add: andThen_def)

lemma andThen_Nil: "andThen (Inr ([], u)) f = f u"
  by (simp add: andThen_def split: sum.splits)

lemma andThen_Cons:
  "(case andThen r f of Inl e \<Rightarrow> Inl e | Inr (out, u) \<Rightarrow> Inr (x @ out, u))
     = andThen (case r of Inl e \<Rightarrow> Inl e | Inr (out, u) \<Rightarrow> Inr (x @ out, u)) f"
  by (simp add: andThen_def split: sum.splits prod.splits)

lemma andThen_Cons1:
  "(case andThen r f of Inl e \<Rightarrow> Inl e | Inr (out, u) \<Rightarrow> Inr (c # out, u))
     = andThen (case r of Inl e \<Rightarrow> Inl e | Inr (out, u) \<Rightarrow> Inr (c # out, u)) f"
  by (simp add: andThen_def split: sum.splits prod.splits)

lemma replaceAll_append_brace:
  assumes "opensToken r"
  shows "replaceAll (pre @ r) ps used = andThen (replaceAll pre ps used) (replaceAll r ps)"
proof (induction pre ps used rule: replaceAll.induct)
  case (1 ps used)
  show ?case
    by (simp add: andThen_Nil)
next
  case (2 c cs ps used)
  show ?case
  proof (cases "matchToken (c # cs)")
    case None
    then have "matchToken (c # cs @ r) = None"
      by (simp add: matchToken_append_brace [OF assms])
    with None "2.IH"(1) show ?thesis
      by (simp add: replaceAll.simps(2) andThen_Cons1)
  next
    case (Some kr)
    obtain key rest where kr: "kr = (key, rest)" by (cases kr)
    with Some have m: "matchToken (c # cs @ r) = Some (key, rest @ r)"
      by (simp add: matchToken_append_brace [OF assms])
    show ?thesis
    proof (cases "hasKey ps key")
      case False
      with Some kr m show ?thesis
        by (simp add: replaceAll.simps(2) andThen_simps)
    next
      case True
      with "2.IH"(2) Some kr have
        "replaceAll (rest @ r) ps (insert key used)
           = andThen (replaceAll rest ps (insert key used)) (replaceAll r ps)"
        by simp
      with True Some kr m show ?thesis
        by (simp add: replaceAll.simps(2) andThen_Cons)
    qed
  qed
qed

lemma replaceAll_literal:
  "CHR ''{'' \<notin> set lit \<Longrightarrow>
   replaceAll (lit @ s) ps used = andThen (Inr (lit, used)) (replaceAll s ps)"
proof (induction lit)
  case Nil
  show ?case by (simp add: andThen_Nil)
next
  case (Cons c lit)
  then have "c \<noteq> CHR ''{''" by auto
  then have "matchToken (c # lit @ s) = None"
    by (rule matchToken_not_brace)
  with Cons show ?case
    by (simp add: replaceAll.simps(2) andThen_simps split: sum.splits prod.splits)
qed


lemma replaceAll_token:
  assumes "key \<noteq> []" "\<forall>c\<in>set key. isWordChar c"
  shows "replaceAll (CHR ''{'' # key @ CHR ''}'' # post) ps used =
           (if \<not> hasKey ps key then Inl (MissingPrefixParam key)
            else andThen (Inr (encodeURIComponent (jsString (getParam ps key)), insert key used))
                   (replaceAll post ps))"
  using matchToken_token [OF assms, of post]
  by (simp add: replaceAll.simps(2) andThen_simps)

lemma replaceAll_used_mono:
  "replaceAll t ps used = Inr (out, used') \<Longrightarrow> used \<subseteq> used'"
proof (induction t ps used arbitrary: out used' rule: replaceAll.induct)
  case (1 ps used)
  then show ?case by simp
next
  case (2 c cs ps used)
  show ?case
  proof (cases "matchToken (c # cs)")
    case None
    with "2.prems" obtain out' where "replaceAll cs ps used = Inr (out', used')"
      by (auto simp: replaceAll.simps(2) split: sum.splits)
    with None "2.IH"(1) show ?thesis by blast
  next
    case (Some kr)
    obtain key rest where kr: "kr = (key, rest)" by (cases kr)
    with Some "2.prems" have k: "hasKey ps key"
      by (auto simp: replaceAll.simps(2) split: if_splits)
    with Some kr "2.prems" obtain out' where
      "replaceAll rest ps (insert key used) = Inr (out', used')"
      by (auto simp: replaceAll.simps(2) split: sum.splits)
    with Some kr k "2.IH"(2) have "insert key used \<subseteq> used'" by blast
    then show ?thesis by blast
  qed
qed

text \<open>
  What the substitution does at a placeholder. A template without text gives the empty
  prefix, whatever the parameters, and a resolver made without a prefix is the resolver
  of the empty one. In a template \<open>pre @ {key} @ post\<close>, where \<open>key\<close> is a non-empty
  run of word characters, the substitution first handles \<open>pre\<close>; then it fails with
  \<open>MissingPrefixParam key\<close> when \<^verbatim>\<open>key in params\<close> is false, and otherwise writes
  the URI-encoded text of \<^verbatim>\<open>params[key]\<close> in place of the token, adds \<open>key\<close> to the
  used keys and goes on with \<open>post\<close>.
\<close>

lemma replaceTokens_placeholder:
  assumes "key \<noteq> []" and "\<forall>c\<in>set key. isWordChar c"
  shows "replaceTokens [] ps used = Inr ([], used) \<and>
    createLaravelResourceResolver resource (opts\<lparr>prefix := None\<rparr>)
      = createLaravelResourceResolver resource (opts\<lparr>prefix := Some []\<rparr>) \<and>
    replaceTokens (pre @ ''{'' @ key @ ''}'' @ post) ps used =
      (case replaceAll pre ps used of
         Inl e \<Rightarrow> Inl e
       | Inr (a, u) \<Rightarrow>
           if \<not> hasKey ps key then Inl (MissingPrefixParam key)
           else (case replaceAll post ps (insert key u) of
                   Inl e \<Rightarrow> Inl e
                 | Inr (b, u') \<Rightarrow>
                     Inr (trimSlashes
                            (a @ encodeURIComponent (jsString (getParam ps key)) @ b), u'))) \<and>
    (\<forall>out used'. replaceTokens (pre @ ''{'' @ key @ ''}'' @ post) ps used = Inr (out, used')
        \<longrightarrow> hasKey ps key \<and> key \<in> used')"
proof -
  let ?t = "pre @ ''{'' @ key @ ''}'' @ post"
  let ?rhs = "case replaceAll pre ps used of
         Inl e \<Rightarrow> Inl e
       | Inr (a, u) \<Rightarrow>
           if \<not> hasKey ps key then Inl (MissingPrefixParam key)
           else (case replaceAll post ps (insert key u) of
                   Inl e \<Rightarrow> Inl e
                 | Inr (b, u') \<Rightarrow>
                     Inr (trimSlashes
                            (a @ encodeURIComponent (jsString (getParam ps key)) @ b), u'))"
  have open_tok: "opensToken (CHR ''{'' # key @ CHR ''}'' # post)"
    by (simp add: opensToken_def)
  have all: "replaceAll (pre @ CHR ''{'' # key @ CHR ''}'' # post) ps used =
      andThen (replaceAll pre ps used) (replaceAll (CHR ''{'' # key @ CHR ''}'' # post) ps)"
    by (rule replaceAll_append_brace [OF open_tok])
  have eq: "replaceTokens ?t ps used = ?rhs"
    by (simp add: replaceTokens_def all replaceAll_token [OF assms] andThen_def
          split: sum.splits prod.splits)
  have "hasKey ps key \<and> key \<in> used'"
    if ok: "replaceTokens ?t ps used = Inr (out, used')" for out used'
  proof -
    from ok obtain a u where a: "replaceAll pre ps used = Inr (a, u)"
      unfolding eq by (auto split: sum.splits)
    with ok have k: "hasKey ps key"
      unfolding eq by (auto split: if_splits)
    with ok a obtain b where "replaceAll post ps (insert key u) = Inr (b, used')"
      unfolding eq by (auto split: sum.splits)
    then have "insert key u \<subseteq> used'"
      by (rule replaceAll_used_mono)
    with k show ?thesis by blast
  qed
  moreover have "replaceTokens [] ps used = Inr ([], used)"
    by (simp add: replaceTokens_def)
  moreover have "createLaravelResourceResolver resource (opts\<lparr>prefix := None\<rparr>)
      = createLaravelResourceResolver resource (opts\<lparr>prefix := Some []\<rparr>)"
    by (simp add: createLaravelResourceResolver_def)
  ultimately show ?thesis
    using eq by blast
qed

text \<open>
  C5. The test for a placeholder's key is \<^verbatim>\<open>key in params\<close>, which is also true of
  a key that the parameter object only inherits. With the prefix \<^verbatim>\<open>/x/{toString}\<close>
  and the default parameters \<^verbatim>\<open>{}\<close>, which hold nothing under \<^verbatim>\<open>toString\<close>,
  the call does not fail with \<open>MissingPrefixParam\<close>: the inherited function is found,
  printed and written into the path.
\<close>

theorem inherited_key_substituted:
  "ownProps (plainObject []) = [] \<and>
   createLaravelResourceResolver ''photos''
     \<lparr>prefix = Some ''/x/{toString}'', resourceParam = None, trailingSlash = None,
      baseUrl = None\<rparr> ''photos.index'' (plainObject [])
   = Inr ''/x/function%20toString()%20%7B%20%5Bnative%20code%5D%20%7D/photos''"
  by code_simp

subsection \<open>Braces that are no placeholder\<close>

lemma matchToken_nonword:
  assumes "CHR ''}'' \<notin> set t" "\<exists>c\<in>set t. \<not> isWordChar c"
  shows "matchToken (CHR ''{'' # t @ CHR ''}'' # post) = None"
proof -
  from assms(2) obtain x where x: "x \<in> set t" "\<not> isWordChar x" by blast
  then have tw: "takeWhile isWordChar (t @ CHR ''}'' # post) = takeWhile isWordChar t"
    and dw: "dropWhile isWordChar (t @ CHR ''}'' # post) = dropWhile isWordChar t @ CHR ''}'' # post"
    by simp_all
  from x obtain d rest where dw0: "dropWhile isWordChar t = d # rest"
    by (cases "dropWhile isWordChar t") auto
  then have "d \<in> set t"
    by (metis list.set_intros(1) set_dropWhileD)
  with assms(1) have "d \<noteq> CHR ''}''" by auto
  then show ?thesis
    by (simp add: matchToken_def Let_def tw dw dw0)
qed

lemma replaceAll_nonword:
  assumes "CHR ''{'' \<notin> set t" "CHR ''}'' \<notin> set t" "\<exists>c\<in>set t. \<not> isWordChar c"
  shows "replaceAll (CHR ''{'' # t @ CHR ''}'' # post) ps used
           = andThen (Inr (CHR ''{'' # t @ ''}'', used)) (replaceAll post ps)"
proof -
  have "CHR ''{'' \<notin> set (t @ ''}'')"
    using assms(1) by simp
  then have "replaceAll ((t @ ''}'') @ post) ps used
      = andThen (Inr (t @ ''}'', used)) (replaceAll post ps)"
    by (rule replaceAll_literal)
  then show ?thesis
    using matchToken_nonword [OF assms(2,3), of post]
    by (simp add: replaceAll.simps(2) andThen_simps split: sum.splits prod.splits)
qed

lemma replaceAll_nonword_anywhere:
  assumes "CHR ''{'' \<notin> set t" "CHR ''}'' \<notin> set t" "\<exists>c\<in>set t. \<not> isWordChar c"
  shows "replaceAll (pre @ ''{'' @ t @ ''}'' @ post) ps used
           = andThen (replaceAll pre ps used)
               (\<lambda>u. andThen (Inr (''{'' @ t @ ''}'', u)) (replaceAll post ps))"
proof -
  have "opensToken (CHR ''{'' # t @ CHR ''}'' # post)"
    by (simp add: opensToken_def)
  then have "replaceAll (pre @ CHR ''{'' # t @ CHR ''}'' # post) ps used =
      andThen (replaceAll pre ps used) (replaceAll (CHR ''{'' # t @ CHR ''}'' # post) ps)"
    by (rule replaceAll_append_brace)
  moreover have "replaceAll (CHR ''{'' # t @ CHR ''}'' # post) ps
      = (\<lambda>u. andThen (Inr (CHR ''{'' # t @ ''}'', u)) (replaceAll post ps))"
    by (rule ext) (rule replaceAll_nonword [OF assms])
  ultimately show ?thesis
    by simp
qed

lemma sublist_dropWhile:
  assumes "sublist tok s" "tok \<noteq> []" "\<not> P (hd tok)"
  shows "sublist tok (dropWhile P s)"
proof -
  from assms(1) obtain l r where s: "s = l @ tok @ r"
    by (auto simp: sublist_def)
  from assms(2,3) have "dropWhile P (tok @ r) = tok @ r"
    by (cases tok) auto
  then have "dropWhile P s = dropWhile P l @ tok @ r"
    unfolding s by (simp add: dropWhile_append)
  then show ?thesis
    by (simp add: sublist_def) blast
qed

lemma sublist_trimSlashes:
  assumes "sublist tok s" "tok \<noteq> []" "\<not> isSlash (hd tok)" "\<not> isSlash (last tok)"
  shows "sublist tok (trimSlashes s)"
proof -
  have "sublist tok (dropWhile isSlash s)"
    using assms(1-3) by (rule sublist_dropWhile)
  then have "sublist (rev tok) (rev (dropWhile isSlash s))"
    by (simp add: sublist_rev)
  moreover have "rev tok \<noteq> []" "\<not> isSlash (hd (rev tok))"
    using assms(2,4) by (simp_all add: hd_rev)
  ultimately have "sublist (rev tok) (dropWhile isSlash (rev (dropWhile isSlash s)))"
    by (rule sublist_dropWhile)
  then have "sublist (rev (rev tok)) (rev (dropWhile isSlash (rev (dropWhile isSlash s))))"
    by (simp only: sublist_rev)
  then show ?thesis
    by (simp add: trimSlashes_def)
qed

lemma sublist_joinWith: "p \<in> set parts \<Longrightarrow> sublist p (joinWith sep parts)"
proof (induction sep parts rule: joinWith.induct)
  case (1 sep)
  then show ?case by simp
next
  case (2 sep q)
  then show ?case by simp
next
  case (3 sep q q' qs)
  show ?case
  proof (cases "p = q")
    case True
    then show ?thesis by simp
  next
    case False
    with 3 have "sublist p (joinWith sep (q' # qs))" by simp
    then obtain l r where "joinWith sep (q' # qs) = l @ p @ r"
      by (auto simp: sublist_def)
    then have "joinWith sep (q # q' # qs) = (q @ sep @ l) @ p @ r"
      by simp
    then show ?thesis
      unfolding sublist_def by blast
  qed
qed

lemma collapseSlashes_append:
  assumes "\<not> (x \<noteq> [] \<and> isSlash (last x) \<and> y \<noteq> [] \<and> isSlash (hd y))"
  shows "collapseSlashes (x @ y) = collapseSlashes x @ collapseSlashes y"
  using assms
proof (induction x rule: collapseSlashes.induct)
  case 1
  then show ?case by simp
next
  case (2 c)
  then show ?case by (cases y) auto
next
  case (3 c d cs)
  then show ?case by simp
qed

lemma collapseSlashes_id:
  "\<not> sublist ''//'' s \<Longrightarrow> collapseSlashes s = s"
proof (induction s rule: collapseSlashes.induct)
  case 1
  then show ?case by simp
next
  case (2 c)
  then show ?case by simp
next
  case (3 c d cs)
  from "3.prems" have "\<not> sublist ''//'' (d # cs)" and "\<not> Sublist.prefix ''//'' (c # d # cs)"
    by (simp_all add: sublist_Cons_right)
  then show ?case
    using "3.IH" by (auto simp: isSlash_def)
qed

lemma sublist_collapseSlashes:
  assumes "sublist tok s" "tok \<noteq> []" "\<not> isSlash (hd tok)" "\<not> isSlash (last tok)"
    and "\<not> sublist ''//'' tok"
  shows "sublist tok (collapseSlashes s)"
proof -
  from assms(1) obtain l r where s: "s = l @ tok @ r"
    by (auto simp: sublist_def)
  have "collapseSlashes (l @ tok @ r) = collapseSlashes l @ collapseSlashes (tok @ r)"
    using assms(2,3) by (intro collapseSlashes_append) simp
  also have "collapseSlashes (tok @ r) = collapseSlashes tok @ collapseSlashes r"
    using assms(2,4) by (intro collapseSlashes_append) simp
  also have "collapseSlashes tok = tok"
    using assms(5) by (rule collapseSlashes_id)
  finally show ?thesis
    unfolding s sublist_def by blast
qed


subsection \<open>What a successful call went through\<close>

lemma route_InrE:
  assumes "route resource pre singular tr base name ps = Inr url"
  obtains a act prefixPath used1 rel used2 where
    "nthOpt (splitOn CHR ''.'' name) 0 = Some resource"
    "nthOpt (splitOn CHR ''.'' name) 1 = Some a"
    "isValidAction a" "asAction a = Some act"
    "replaceTokens pre ps {} = Inr (prefixPath, used1)"
    "actionToPath act singular ps used1 = Inr (rel, used2)"
    "url = (let u = joinUrl [base, prefixPath, ''/'' @ trimSlashes resource, rel];
                u' = (if tr \<and> \<not> endsWith u ''/'' then u @ ''/'' else u);
                qs = buildQueryString ps used2
            in if qs \<noteq> [] then u' @ ''?'' @ qs else u')"
  using assms unfolding route_def Let_def
  by (auto split: if_splits option.splits sum.splits prod.splits)

subsection \<open>Text that the joining leaves as it is\<close>

lemma sublist_extend: "sublist tok s \<Longrightarrow> sublist tok (l @ s @ r)"
proof -
  assume "sublist tok s"
  then obtain a b where "s = a @ tok @ b"
    by (auto simp: sublist_def)
  then have "l @ s @ r = (l @ a) @ tok @ (b @ r)"
    by simp
  then show ?thesis
    unfolding sublist_def by blast
qed

lemma sublist_joinUrl:
  assumes "sublist tok p" "p \<in> set parts" "tok \<noteq> []"
    and "\<not> isSlash (hd tok)" "\<not> isSlash (last tok)" "\<not> sublist ''//'' tok"
  shows "sublist tok (joinUrl parts)"
proof -
  let ?cleaned = "map trimSlashes (filter (\<lambda>p. p \<noteq> []) parts)"
  from assms(1,3) have "p \<noteq> []" by auto
  with assms(2) have "trimSlashes p \<in> set ?cleaned" by simp
  then have "sublist (trimSlashes p) (joinWith ''/'' ?cleaned)"
    by (rule sublist_joinWith)
  moreover have "sublist tok (trimSlashes p)"
    using assms(1,3,4,5) by (rule sublist_trimSlashes)
  ultimately have path: "sublist tok (joinWith ''/'' ?cleaned)"
    by (auto simp: sublist_def [of "trimSlashes p"] intro: sublist_extend)
  then have "sublist tok (''/'' @ joinWith ''/'' ?cleaned @ [])"
    by (rule sublist_extend)
  with path have "sublist tok
     (if \<not> startsWith (joinWith ''/'' ?cleaned) ''http'' \<and> \<not> startsWith (joinWith ''/'' ?cleaned) ''/''
      then ''/'' @ joinWith ''/'' ?cleaned else joinWith ''/'' ?cleaned)"
    by simp
  then show ?thesis
    unfolding joinUrl_def Let_def
    using assms(3-6) by (rule sublist_collapseSlashes)
qed

lemma no_double_slash_token:
  assumes "\<not> sublist ''//'' t"
  shows "\<not> sublist ''//'' (CHR ''{'' # t @ ''}'')"
proof
  assume "sublist ''//'' (CHR ''{'' # t @ ''}'')"
  then have "sublist ''//'' (t @ ''}'')"
    by (simp add: sublist_Cons_right)
  then obtain l r where eq: "t @ ''}'' = l @ ''//'' @ r"
    by (auto simp: sublist_def)
  show False
  proof (cases r rule: rev_cases)
    case Nil
    with eq have "t @ ''}'' = (l @ ''/'') @ ''/''" by simp
    then show False by (simp only: append1_eq_conv) simp
  next
    case (snoc r' c)
    with eq have "t @ ''}'' = (l @ ''//'' @ r') @ [c]" by simp
    then have "t = l @ ''//'' @ r'" by (simp only: append1_eq_conv)
    with assms show False
      unfolding sublist_def by blast
  qed
qed

text \<open>
  C9. Let \<open>t\<close> be a text without braces that has a character outside the word
  characters. In any template \<open>pre @ {t} @ post\<close> the substitution copies \<open>{t}\<close> as it
  is: its result is that of \<open>pre\<close>, then the text \<open>{t}\<close> with the used keys unchanged
  and no failure, then that of \<open>post\<close>, so the parameters are not consulted for it.
  When moreover \<open>t\<close> has no two slashes in a row, every URL that a resolver with this
  prefix returns contains \<open>{t}\<close> verbatim. (Two slashes in a row inside the braces are
  collapsed into one by the joining, like everywhere else in the path.)
\<close>

theorem nonword_braces_kept:
  assumes "CHR ''{'' \<notin> set t" and "CHR ''}'' \<notin> set t" and "\<exists>c\<in>set t. \<not> isWordChar c"
  shows "replaceAll (pre @ ''{'' @ t @ ''}'' @ post) ps used
           = andThen (replaceAll pre ps used)
               (\<lambda>u. andThen (Inr (''{'' @ t @ ''}'', u)) (replaceAll post ps)) \<and>
         (\<not> sublist ''//'' t \<and> prefix opts = Some (pre @ ''{'' @ t @ ''}'' @ post) \<and>
          createLaravelResourceResolver resource opts name ps = Inr url
            \<longrightarrow> sublist (''{'' @ t @ ''}'') url)"
proof -
  let ?tok = "CHR ''{'' # t @ ''}''"
  let ?tpl = "pre @ ''{'' @ t @ ''}'' @ post"
  have eq: "replaceAll ?tpl ps used
           = andThen (replaceAll pre ps used)
               (\<lambda>u. andThen (Inr (''{'' @ t @ ''}'', u)) (replaceAll post ps))" for used
    by (rule replaceAll_nonword_anywhere [OF assms])
  have "sublist ?tok url"
    if nd: "\<not> sublist ''//'' t" and pf: "prefix opts = Some ?tpl"
      and ok: "createLaravelResourceResolver resource opts name ps = Inr url"
  proof -
    define singular where
      "singular = (case resourceParam opts of None \<Rightarrow> toSingular resource | Some p \<Rightarrow> p)"
    define tr where "tr = (case trailingSlash opts of None \<Rightarrow> False | Some b \<Rightarrow> b)"
    define base where "base = (case baseUrl opts of None \<Rightarrow> [] | Some b \<Rightarrow> b)"
    from ok pf have "route resource ?tpl singular tr base name ps = Inr url"
      by (simp add: createLaravelResourceResolver_def singular_def tr_def base_def)
    then obtain prefixPath used1 rel used2 where
      rt: "replaceTokens ?tpl ps {} = Inr (prefixPath, used1)"
      and url: "url = (let u = joinUrl [base, prefixPath, ''/'' @ trimSlashes resource, rel];
                u' = (if tr \<and> \<not> endsWith u ''/'' then u @ ''/'' else u);
                qs = buildQueryString ps used2
            in if qs \<noteq> [] then u' @ ''?'' @ qs else u')"
      by (rule route_InrE)
    have tok: "?tok \<noteq> []" "\<not> isSlash (hd ?tok)" "\<not> isSlash (last ?tok)"
      by (simp_all add: isSlash_def)
    have nd': "\<not> sublist ''//'' ?tok"
      using nd by (rule no_double_slash_token)
    from rt obtain out where out: "replaceAll ?tpl ps {} = Inr (out, used1)"
      and pp: "prefixPath = trimSlashes out"
      by (auto simp: replaceTokens_def split: if_splits sum.splits)
    from out obtain a b where "out = a @ ?tok @ b"
      unfolding eq by (auto simp: andThen_def split: sum.splits prod.splits)
    then have "sublist ?tok out"
      unfolding sublist_def by blast
    then have "sublist ?tok prefixPath"
      unfolding pp using tok by (rule sublist_trimSlashes)
    then have j: "sublist ?tok (joinUrl [base, prefixPath, ''/'' @ trimSlashes resource, rel])"
      using _ tok nd' by (rule sublist_joinUrl) simp
    define u where "u = joinUrl [base, prefixPath, ''/'' @ trimSlashes resource, rel]"
    define u' where "u' = (if tr \<and> \<not> endsWith u ''/'' then u @ ''/'' else u)"
    from j have "sublist ?tok u" by (simp add: u_def)
    then have "sublist ?tok u'"
      using sublist_extend [of ?tok u "[]" "''/''"] by (simp add: u'_def)
    then have "sublist ?tok (u' @ ''?'' @ buildQueryString ps used2)"
      using sublist_extend [of ?tok u' "[]"] by simp
    with \<open>sublist ?tok u'\<close> show ?thesis
      unfolding url u_def [symmetric] Let_def u'_def [symmetric] by simp
  qed
  with eq show ?thesis by simp
qed

theorem nonword_braces_kept_witness:
  "CHR ''{'' \<notin> set ''user-id'' \<and> CHR ''}'' \<notin> set ''user-id'' \<and>
   \<not> list_all isWordChar ''user-id'' \<and> \<not> sublist ''//'' ''user-id'' \<and>
   replaceAll ''/a/{user-id}'' (plainObject []) {} = Inr (''/a/{user-id}'', {}) \<and>
   createLaravelResourceResolver ''R''
     \<lparr>prefix = Some ''/a/{user-id}'', resourceParam = None, trailingSlash = None,
      baseUrl = None\<rparr> ''R.index'' (plainObject []) = Inr ''/a/{user-id}/R'' \<and>
   sublist ''{user-id}'' ''/a/{user-id}/R''"
proof -
  let ?opts = "\<lparr>prefix = Some ''/a/{user-id}'', resourceParam = None, trailingSlash = None,
      baseUrl = None\<rparr>"
  have h1: "CHR ''{'' \<notin> set ''user-id''" and h2: "CHR ''}'' \<notin> set ''user-id''"
    by simp_all
  have h3: "\<exists>c\<in>set ''user-id''. \<not> isWordChar c"
    by (simp add: isWordChar_def)
  have h4: "\<not> sublist ''//'' ''user-id''"
    by code_simp
  have r: "createLaravelResourceResolver ''R'' ?opts ''R.index'' (plainObject []) = Inr ''/a/{user-id}/R''"
    by code_simp
  have pre: "replaceAll ''/a/'' (plainObject []) {} = Inr (''/a/'', {})"
    by (simp add: replaceAll.simps(2) matchToken_def)
  note inst = nonword_braces_kept [OF h1 h2 h3, where pre = "''/a/''" and post = "[]"
      and ps = "plainObject []" and used = "{}" and opts = ?opts and resource = "''R''"
      and name = "''R.index''" and url = "''/a/{user-id}/R''"]
  from inst have "replaceAll ''/a/{user-id}'' (plainObject []) {} = Inr (''/a/{user-id}'', {})"
    by (simp add: pre andThen_simps)
  moreover from inst h4 r have "sublist ''{user-id}'' ''/a/{user-id}/R''"
    by simp
  ultimately show ?thesis
    using h1 h2 h3 h4 r by (simp add: list_all_iff)
qed

text \<open>
  The restriction on slashes is needed: the inner text \<^verbatim>\<open>a//b\<close> is no run of word
  characters, and the prefix \<^verbatim>\<open>{a//b}\<close> comes out of the joining as
  \<^verbatim>\<open>{a/b}\<close>.
\<close>

theorem doubled_slash_in_braces_collapsed:
  "\<not> list_all isWordChar ''a//b'' \<and>
   createLaravelResourceResolver ''R''
     \<lparr>prefix = Some ''{a//b}'', resourceParam = None, trailingSlash = None, baseUrl = None\<rparr>
     ''R.index'' (plainObject []) = Inr ''/{a/b}/R'' \<and>
   \<not> sublist ''{a//b}'' ''/{a/b}/R''"
  by code_simp

subsection \<open>The keys that a successful substitution uses\<close>

lemma replaceAll_used:
  "replaceAll t ps used = Inr (out, used') \<Longrightarrow>
     used' = used \<union> set (tokenKeys t) \<and> (\<forall>k\<in>set (tokenKeys t). hasKey ps k)"
proof (induction t ps used arbitrary: out used' rule: replaceAll.induct)
  case (1 ps used)
  then show ?case by simp
next
  case (2 c cs ps used)
  show ?case
  proof (cases "matchToken (c # cs)")
    case None
    with "2.prems" obtain out' where "replaceAll cs ps used = Inr (out', used')"
      by (auto simp: replaceAll.simps(2) split: sum.splits)
    with None "2.IH"(1) show ?thesis
      by (simp add: tokenKeys.simps(2))
  next
    case (Some kr)
    obtain key rest where kr: "kr = (key, rest)" by (cases kr)
    with Some "2.prems" have k: "hasKey ps key"
      by (auto simp: replaceAll.simps(2) split: if_splits)
    with Some kr "2.prems" obtain out' where
      "replaceAll rest ps (insert key used) = Inr (out', used')"
      by (auto simp: replaceAll.simps(2) split: sum.splits)
    with Some kr k "2.IH"(2) have
      "used' = insert key used \<union> set (tokenKeys rest) \<and> (\<forall>k\<in>set (tokenKeys rest). hasKey ps k)"
      by blast
    with Some kr k show ?thesis
      by (auto simp: tokenKeys.simps(2))
  qed
qed

lemma replaceAll_cong:
  "(\<And>k. k \<in> set (tokenKeys t) \<Longrightarrow> hasKey ps' k = hasKey ps k \<and> getParam ps' k = getParam ps k)
     \<Longrightarrow> replaceAll t ps' used = replaceAll t ps used"
proof (induction t ps used rule: replaceAll.induct)
  case (1 ps used)
  show ?case by simp
next
  case (2 c cs ps used)
  show ?case
  proof (cases "matchToken (c # cs)")
    case None
    with "2.prems" have "replaceAll cs ps' used = replaceAll cs ps used"
      by (intro "2.IH"(1)) (simp_all add: tokenKeys.simps(2))
    with None show ?thesis
      by (simp add: replaceAll.simps(2))
  next
    case (Some kr)
    obtain key rest where kr: "kr = (key, rest)" by (cases kr)
    with Some have keys: "tokenKeys (c # cs) = key # tokenKeys rest"
      by (simp add: tokenKeys.simps(2))
    with "2.prems" have same: "hasKey ps' key = hasKey ps key" "getParam ps' key = getParam ps key"
      by simp_all
    show ?thesis
    proof (cases "hasKey ps key")
      case False
      with same Some kr show ?thesis
        by (simp add: replaceAll.simps(2))
    next
      case True
      with Some kr "2.prems" keys have
        "replaceAll rest ps' (insert key used) = replaceAll rest ps (insert key used)"
        by (intro "2.IH"(2)) simp_all
      with True same Some kr show ?thesis
        by (simp add: replaceAll.simps(2) split: sum.splits prod.splits)
    qed
  qed
qed

lemma replaceTokens_used:
  assumes "replaceTokens t ps used = Inr (out, used')"
  shows "used' = used \<union> set (tokenKeys t)" and "\<forall>k\<in>set (tokenKeys t). hasKey ps k"
proof -
  show "used' = used \<union> set (tokenKeys t)"
  proof (cases "t = []")
    case True
    with assms show ?thesis by (simp add: replaceTokens_def)
  next
    case False
    with assms obtain out' where "replaceAll t ps used = Inr (out', used')"
      by (auto simp: replaceTokens_def split: sum.splits)
    then show ?thesis by (simp add: replaceAll_used)
  qed
  show "\<forall>k\<in>set (tokenKeys t). hasKey ps k"
  proof (cases "t = []")
    case True
    then show ?thesis by simp
  next
    case False
    with assms obtain out' where "replaceAll t ps used = Inr (out', used')"
      by (auto simp: replaceTokens_def split: sum.splits)
    then show ?thesis using replaceAll_used by blast
  qed
qed

lemma replaceTokens_cong:
  assumes "\<And>k. k \<in> set (tokenKeys t) \<Longrightarrow>
             hasKey ps' k = hasKey ps k \<and> getParam ps' k = getParam ps k"
  shows "replaceTokens t ps' used = replaceTokens t ps used"
proof -
  have "replaceAll t ps' used = replaceAll t ps used"
    using assms by (rule replaceAll_cong)
  then show ?thesis
    by (simp add: replaceTokens_def)
qed

subsection \<open>Parameters restricted to a set of keys\<close>

lemma hasKey_restrict:
  "k \<in> U \<Longrightarrow>
   hasKey (ps\<lparr>ownProps := filter (\<lambda>(k, v). k \<in> U) (ownProps ps)\<rparr>) k = hasKey ps k"
  by (force simp: hasKey_def)

lemma hasKey_restrictD:
  "hasKey (ps\<lparr>ownProps := filter (\<lambda>(k, v). k \<in> U) (ownProps ps)\<rparr>) k \<Longrightarrow> hasKey ps k"
  by (force simp: hasKey_def)

lemma map_of_filter_keys:
  "k \<in> U \<Longrightarrow> map_of (filter (\<lambda>(k, v). k \<in> U) es) k = map_of es k"
  by (induction es) auto

lemma getParam_restrict:
  "k \<in> U \<Longrightarrow>
   getParam (ps\<lparr>ownProps := filter (\<lambda>(k, v). k \<in> U) (ownProps ps)\<rparr>) k = getParam ps k"
  by (simp add: getParam_def map_of_filter_keys split: option.splits)

lemma set_objectEntries: "set (objectEntries ps) = set (ownProps ps)"
  by (auto simp: objectEntries_def)

subsection \<open>The key of the identifier\<close>

lemma actionToPath_used:
  assumes "actionToPath act singular ps used = Inr (rel, used')"
  shows "used' = used \<union> (if needsId act then {identifierKey singular ps} else {})"
proof (cases "needsId act")
  case False
  with assms show ?thesis
    by (simp add: actionToPath_def)
next
  case True
  show ?thesis
  proof (cases "hasKey ps singular")
    case True
    with \<open>needsId act\<close> assms show ?thesis
      by (simp add: actionToPath_def identifierKey_def split: if_splits)
  next
    case False
    with \<open>needsId act\<close> assms show ?thesis
      by (simp add: actionToPath_def identifierKey_def split: if_splits)
  qed
qed

lemma actionToPath_restrict:
  assumes "actionToPath act singular ps used = Inr (rel, used')"
    and "needsId act \<longrightarrow> identifierKey singular ps \<in> U"
  shows "actionToPath act singular
           (ps\<lparr>ownProps := filter (\<lambda>(k, v). k \<in> U) (ownProps ps)\<rparr>) used = Inr (rel, used')"
proof (cases "needsId act")
  case False
  with assms(1) show ?thesis
    by (simp add: actionToPath_def)
next
  case True
  let ?ps' = "ps\<lparr>ownProps := filter (\<lambda>(k, v). k \<in> U) (ownProps ps)\<rparr>"
  show ?thesis
  proof (cases "hasKey ps singular")
    case True
    with \<open>needsId act\<close> assms(2) have "singular \<in> U"
      by (simp add: identifierKey_def)
    with True have "hasKey ?ps' singular" "getParam ?ps' singular = getParam ps singular"
      by (simp_all add: hasKey_restrict getParam_restrict)
    with True \<open>needsId act\<close> assms(1) show ?thesis
      by (simp add: actionToPath_def split: if_splits)
  next
    case False
    then have no: "\<not> hasKey ?ps' singular"
      using hasKey_restrictD by blast
    from False \<open>needsId act\<close> assms(2) have "''id'' \<in> U"
      by (simp add: identifierKey_def)
    then have "hasKey ?ps' ''id'' = hasKey ps ''id''" "getParam ?ps' ''id'' = getParam ps ''id''"
      by (simp_all add: hasKey_restrict getParam_restrict)
    with False no \<open>needsId act\<close> assms(1) show ?thesis
      by (simp add: actionToPath_def split: if_splits)
  qed
qed

subsection \<open>The query string\<close>

lemma joinWith_eq_Nil:
  "joinWith sep parts = [] \<longleftrightarrow> (\<forall>p\<in>set parts. p = []) \<and> (sep = [] \<or> length parts \<le> 1)"
  by (induction sep parts rule: joinWith.induct) auto

lemma uspToString_eq_Nil: "uspToString pairs = [] \<longleftrightarrow> pairs = []"
  by (cases pairs) (auto simp: uspToString_def joinWith_eq_Nil)

lemma buildQueryString_all_used:
  "buildQueryString (ps\<lparr>ownProps := filter (\<lambda>(k, v). k \<in> U) (ownProps ps)\<rparr>) U = []"
proof -
  let ?ps' = "ps\<lparr>ownProps := filter (\<lambda>(k, v). k \<in> U) (ownProps ps)\<rparr>"
  have "\<forall>e\<in>set (objectEntries ?ps'). fst e \<in> U"
    by (auto simp: set_objectEntries)
  then have "filter (\<lambda>(k, v). k \<notin> U \<and> v \<noteq> JUndefined \<and> v \<noteq> JNull) (objectEntries ?ps') = []"
    by (auto simp: filter_empty_conv)
  then show ?thesis
    by (simp add: buildQueryString_def)
qed

lemma route_parsed:
  assumes "nthOpt (splitOn CHR ''.'' name) 0 = Some resource"
    and "nthOpt (splitOn CHR ''.'' name) 1 = Some a"
    and "isValidAction a" and "asAction a = Some act"
  shows "route resource pre singular tr base name ps =
    (case replaceTokens pre ps {} of
       Inl e \<Rightarrow> Inl e
     | Inr (prefixPath, used1) \<Rightarrow>
         (case actionToPath act singular ps used1 of
            Inl e \<Rightarrow> Inl e
          | Inr (rel, used2) \<Rightarrow>
              Inr (let u = joinUrl [base, prefixPath, ''/'' @ trimSlashes resource, rel];
                       u' = (if tr \<and> \<not> endsWith u ''/'' then u @ ''/'' else u);
                       qs = buildQueryString ps used2
                   in if qs \<noteq> [] then u' @ ''?'' @ qs else u')))"
  using assms by (simp add: route_def Let_def split: sum.splits prod.splits)


text \<open>
  C4. Whenever a call succeeds, its action \<open>act\<close> is the one that the second piece of
  the name spells, and with \<open>used\<close> the keys of the placeholders of the prefix together
  with, for an identifier-bound action, the key of the identifier: the URL is the path,
  which is what the same call returns when the own parameters are cut down to the used
  keys, followed by the query string of the other parameters. That string is made from
  the own entries whose key is not used and whose value is neither \<^verbatim>\<open>undefined\<close>
  nor \<^verbatim>\<open>null\<close>, in the order of \<^verbatim>\<open>Object.entries\<close>: the entries under an array
  index first, by ascending index, then the others in the order in which the parameters
  give them. An array gives one pair \<^verbatim>\<open>(key[], item)\<close> for each element in order,
  any other value the one pair \<^verbatim>\<open>(key, value)\<close>. A question mark and the encoded
  pairs are appended if and only if there is at least one pair.
\<close>

theorem query_string_entries:
  assumes "createLaravelResourceResolver resource opts name ps = Inr url"
  shows "(\<exists>a act path.
      nthOpt (splitOn CHR ''.'' name) 1 = Some a \<and> asAction a = Some act \<and>
      (let used = consumedKeys (case prefix opts of None \<Rightarrow> [] | Some p \<Rightarrow> p)
                    (case resourceParam opts of None \<Rightarrow> toSingular resource | Some p \<Rightarrow> p)
                    act ps;
           listed = sort_key (\<lambda>(k, v). decimalValue k)
                      (filter (\<lambda>(k, v). isArrayIndex k) (ownProps ps)) @
                    filter (\<lambda>(k, v). \<not> isArrayIndex k) (ownProps ps);
           entries = filter (\<lambda>(k, v). k \<notin> used \<and> v \<noteq> JUndefined \<and> v \<noteq> JNull) listed;
           pairs = concat (map entryPairs entries)
       in createLaravelResourceResolver resource opts name
            (ps\<lparr>ownProps := filter (\<lambda>(k, v). k \<in> used) (ownProps ps)\<rparr>) = Inr path \<and>
          url = (if pairs = [] then path else path @ ''?'' @ uspToString pairs))) \<and>
    (\<forall>k items. entryPairs (k, JArr items) = map (\<lambda>item. (k @ ''[]'', jsString item)) items) \<and>
    (\<forall>k v. (\<forall>items. v \<noteq> JArr items) \<longrightarrow> entryPairs (k, v) = [(k, jsString v)])"
proof -
  define pre where "pre = (case prefix opts of None \<Rightarrow> [] | Some p \<Rightarrow> p)"
  define singular where
    "singular = (case resourceParam opts of None \<Rightarrow> toSingular resource | Some p \<Rightarrow> p)"
  define tr where "tr = (case trailingSlash opts of None \<Rightarrow> False | Some b \<Rightarrow> b)"
  define base where "base = (case baseUrl opts of None \<Rightarrow> [] | Some b \<Rightarrow> b)"
  have factory: "createLaravelResourceResolver resource opts = route resource pre singular tr base"
    by (simp add: createLaravelResourceResolver_def pre_def singular_def tr_def base_def)
  from assms have "route resource pre singular tr base name ps = Inr url"
    by (simp add: factory)
  then obtain a act prefixPath used1 rel used2 where
    res: "nthOpt (splitOn CHR ''.'' name) 0 = Some resource"
    and a: "nthOpt (splitOn CHR ''.'' name) 1 = Some a"
    and valid: "isValidAction a" and act: "asAction a = Some act"
    and rt: "replaceTokens pre ps {} = Inr (prefixPath, used1)"
    and ap: "actionToPath act singular ps used1 = Inr (rel, used2)"
    and url: "url = (let u = joinUrl [base, prefixPath, ''/'' @ trimSlashes resource, rel];
                u' = (if tr \<and> \<not> endsWith u ''/'' then u @ ''/'' else u);
                qs = buildQueryString ps used2
            in if qs \<noteq> [] then u' @ ''?'' @ qs else u')"
    by (rule route_InrE)
  define U where "U = consumedKeys pre singular act ps"
  define ps' where "ps' = ps\<lparr>ownProps := filter (\<lambda>(k, v). k \<in> U) (ownProps ps)\<rparr>"
  define entries where
    "entries = filter (\<lambda>(k, v). k \<notin> U \<and> v \<noteq> JUndefined \<and> v \<noteq> JNull) (objectEntries ps)"
  define pairs where "pairs = concat (map entryPairs entries)"
  define u where "u = joinUrl [base, prefixPath, ''/'' @ trimSlashes resource, rel]"
  define path where "path = (if tr \<and> \<not> endsWith u ''/'' then u @ ''/'' else u)"
  have used1: "used1 = set (tokenKeys pre)"
    using replaceTokens_used(1) [OF rt] by simp
  have used2: "used2 = U"
    using actionToPath_used [OF ap] by (simp add: used1 U_def consumedKeys_def)
  have rt': "replaceTokens pre ps' {} = Inr (prefixPath, used1)"
  proof -
    have "hasKey ps' k = hasKey ps k \<and> getParam ps' k = getParam ps k"
      if "k \<in> set (tokenKeys pre)" for k
    proof -
      from that have "k \<in> U" by (simp add: U_def consumedKeys_def)
      then show ?thesis
        by (simp add: ps'_def hasKey_restrict getParam_restrict)
    qed
    then have "replaceTokens pre ps' {} = replaceTokens pre ps {}"
      by (rule replaceTokens_cong)
    with rt show ?thesis by simp
  qed
  have ap': "actionToPath act singular ps' used1 = Inr (rel, used2)"
    unfolding ps'_def using ap
    by (rule actionToPath_restrict) (simp add: U_def consumedKeys_def)
  have qs': "buildQueryString ps' used2 = []"
    unfolding ps'_def used2 by (rule buildQueryString_all_used)
  have path: "route resource pre singular tr base name ps' = Inr path"
    using route_parsed [OF res a valid act, of pre singular tr base ps']
    by (simp add: rt' ap' qs' path_def u_def Let_def)
  have qs: "buildQueryString ps used2 = (if entries = [] then [] else uspToString pairs)"
    by (simp add: buildQueryString_def used2 entries_def pairs_def)
  have final: "url = (if pairs = [] then path else path @ ''?'' @ uspToString pairs)"
  proof (cases "pairs = []")
    case True
    then have "buildQueryString ps used2 = []"
      by (simp add: qs uspToString_eq_Nil)
    with True show ?thesis
      by (simp add: url path_def u_def Let_def)
  next
    case False
    then have "entries \<noteq> []"
      by (auto simp: pairs_def)
    with False have "buildQueryString ps used2 = uspToString pairs" "uspToString pairs \<noteq> []"
      by (simp_all add: qs uspToString_eq_Nil)
    with False show ?thesis
      by (simp add: url path_def u_def Let_def)
  qed
  have "\<exists>a act path.
      nthOpt (splitOn CHR ''.'' name) 1 = Some a \<and> asAction a = Some act \<and>
      (let used = consumedKeys pre singular act ps;
           listed = sort_key (\<lambda>(k, v). decimalValue k)
                      (filter (\<lambda>(k, v). isArrayIndex k) (ownProps ps)) @
                    filter (\<lambda>(k, v). \<not> isArrayIndex k) (ownProps ps);
           entries = filter (\<lambda>(k, v). k \<notin> used \<and> v \<noteq> JUndefined \<and> v \<noteq> JNull) listed;
           pairs = concat (map entryPairs entries)
       in createLaravelResourceResolver resource opts name
            (ps\<lparr>ownProps := filter (\<lambda>(k, v). k \<in> used) (ownProps ps)\<rparr>) = Inr path \<and>
          url = (if pairs = [] then path else path @ ''?'' @ uspToString pairs))"
    unfolding Let_def factory
    using a act path [unfolded ps'_def U_def]
      final [unfolded pairs_def entries_def U_def objectEntries_def]
    by blast
  moreover have "entryPairs (k, v) = [(k, jsString v)]" if "\<forall>items. v \<noteq> JArr items" for k v
    using that by (cases v) simp_all
  ultimately show ?thesis
    unfolding pre_def singular_def by simp
qed

theorem query_string_entries_witness:
  "createLaravelResourceResolver ''photos''
     \<lparr>prefix = Some ''/users/{user}'', resourceParam = None, trailingSlash = None,
      baseUrl = None\<rparr> ''photos.show''
     (plainObject
        [(''user'', JNum ''7''), (''tags'', JArr [JStr ''a'', JStr ''b'']), (''photo'', JNum ''42''),
         (''n'', JNull), (''q'', JStr ''x y''), (''10'', JBool True), (''9'', JNum ''1.5'')])
     = Inr ''/users/7/photos/42?9=1.5&10=true&tags%5B%5D=a&tags%5B%5D=b&q=x+y'' \<and>
   createLaravelResourceResolver ''photos''
     \<lparr>prefix = Some ''/users/{user}'', resourceParam = None, trailingSlash = None,
      baseUrl = None\<rparr> ''photos.show''
     (plainObject [(''user'', JNum ''7''), (''photo'', JNum ''42'')])
     = Inr ''/users/7/photos/42'' \<and>
   ''/users/7/photos/42?9=1.5&10=true&tags%5B%5D=a&tags%5B%5D=b&q=x+y''
     = ''/users/7/photos/42'' @ ''?'' @
       uspToString [(''9'', ''1.5''), (''10'', ''true''), (''tags[]'', ''a''), (''tags[]'', ''b''),
                    (''q'', ''x y'')]"
proof -
  let ?opts = "\<lparr>prefix = Some ''/users/{user}'', resourceParam = None, trailingSlash = None,
      baseUrl = None\<rparr>"
  let ?ps = "plainObject
        [(''user'', JNum ''7''), (''tags'', JArr [JStr ''a'', JStr ''b'']), (''photo'', JNum ''42''),
         (''n'', JNull), (''q'', JStr ''x y''), (''10'', JBool True), (''9'', JNum ''1.5'')]"
  let ?url = "''/users/7/photos/42?9=1.5&10=true&tags%5B%5D=a&tags%5B%5D=b&q=x+y''"
  let ?pairs = "[(''9'', ''1.5''), (''10'', ''true''), (''tags[]'', ''a''), (''tags[]'', ''b''),
                    (''q'', ''x y'')]"
  have r: "createLaravelResourceResolver ''photos'' ?opts ''photos.show'' ?ps = Inr ?url"
    by code_simp
  have r': "createLaravelResourceResolver ''photos'' ?opts ''photos.show''
       (plainObject [(''user'', JNum ''7''), (''photo'', JNum ''42'')]) = Inr ''/users/7/photos/42''"
    by code_simp
  have seg: "nthOpt (splitOn CHR ''.'' ''photos.show'') 1 = Some ''show''"
    by code_simp
  have act: "asAction ''show'' = Some Show"
    by (simp add: asAction_def)
  have kept: "?ps\<lparr>ownProps := filter (\<lambda>(k, v). k \<in> consumedKeys ''/users/{user}''
                  (toSingular ''photos'') Show ?ps) (ownProps ?ps)\<rparr>
      = plainObject [(''user'', JNum ''7''), (''photo'', JNum ''42'')]"
    by code_simp
  have pairs: "concat (map entryPairs
       (filter (\<lambda>(k, v). k \<notin> consumedKeys ''/users/{user}'' (toSingular ''photos'') Show ?ps
                  \<and> v \<noteq> JUndefined \<and> v \<noteq> JNull)
          (sort_key (\<lambda>(k, v). decimalValue k)
             (filter (\<lambda>(k, v). isArrayIndex k) (ownProps ?ps)) @
           filter (\<lambda>(k, v). \<not> isArrayIndex k) (ownProps ?ps))))
      = ?pairs"
    by code_simp
  from query_string_entries [OF r] obtain a act' path where
    a: "nthOpt (splitOn CHR ''.'' ''photos.show'') 1 = Some a" and act': "asAction a = Some act'"
    and rest: "let used = consumedKeys ''/users/{user}'' (toSingular ''photos'') act' ?ps;
           listed = sort_key (\<lambda>(k, v). decimalValue k)
                      (filter (\<lambda>(k, v). isArrayIndex k) (ownProps ?ps)) @
                    filter (\<lambda>(k, v). \<not> isArrayIndex k) (ownProps ?ps);
           entries = filter (\<lambda>(k, v). k \<notin> used \<and> v \<noteq> JUndefined \<and> v \<noteq> JNull) listed;
           pairs = concat (map entryPairs entries)
       in createLaravelResourceResolver ''photos'' ?opts ''photos.show''
            (?ps\<lparr>ownProps := filter (\<lambda>(k, v). k \<in> used) (ownProps ?ps)\<rparr>) = Inr path \<and>
          ?url = (if pairs = [] then path else path @ ''?'' @ uspToString pairs)"
    by auto
  from a seg have "a = ''show''" by simp
  with act' act have "act' = Show" by simp
  with rest have "createLaravelResourceResolver ''photos'' ?opts ''photos.show''
            (plainObject [(''user'', JNum ''7''), (''photo'', JNum ''42'')]) = Inr path"
    and "?url = path @ ''?'' @ uspToString ?pairs"
    unfolding Let_def by (simp_all only: kept pairs) simp_all
  with r r' show ?thesis
    by simp
qed

text \<open>
  Two things that the entries do otherwise than one might read them. An entry that is
  kept need not give a pair: the empty array under an unused key is kept by the filter,
  yet nothing is appended to the path. And the order is not the one in which the
  parameters are written: the keys \<^verbatim>\<open>2\<close> and \<^verbatim>\<open>1\<close>, written after \<^verbatim>\<open>b\<close>,
  come out before it and by ascending number.
\<close>

theorem empty_array_and_index_keys:
  "createLaravelResourceResolver ''R''
     \<lparr>prefix = None, resourceParam = None, trailingSlash = None, baseUrl = None\<rparr>
     ''R.index'' (plainObject [(''tags'', JArr [])]) = Inr ''/R'' \<and>
   ''tags'' \<notin> consumedKeys [] (toSingular ''R'') Index (plainObject [(''tags'', JArr [])]) \<and>
   JArr [] \<noteq> JUndefined \<and> JArr [] \<noteq> JNull \<and>
   createLaravelResourceResolver ''R''
     \<lparr>prefix = None, resourceParam = None, trailingSlash = None, baseUrl = None\<rparr>
     ''R.index'' (plainObject [(''b'', JNum ''1''), (''2'', JStr ''x''), (''1'', JStr ''y'')])
     = Inr ''/R?1=y&2=x&b=1''"
  by code_simp

subsection \<open>What holds of the identifier and of the name\<close>

text \<open>
  Away from the empty key, an identifier-bound action takes its identifier from the
  singular key when the parameters have it, from \<^verbatim>\<open>id\<close> otherwise, and fails when
  they have neither. A name whose first piece is not the resource, or whose second
  piece is missing or no action, is rejected.
\<close>

lemma identifier_priority:
  assumes "needsId act" and "singular \<noteq> []"
  shows "actionToPath act singular ps used =
     (if hasKey ps singular
      then Inr (''/'' @ encodeURIComponent (jsString (getParam ps singular)) @
                  (if act = Edit then ''/edit'' else []),
                insert singular used)
      else if hasKey ps ''id''
      then Inr (''/'' @ encodeURIComponent (jsString (getParam ps ''id'')) @
                  (if act = Edit then ''/edit'' else []),
                insert ''id'' used)
      else Inl (MissingIdentifierParam singular ''id'' act))"
  using assms by (cases act) (simp_all add: actionToPath_def needsId_def)

lemma isValidAction_asAction: "isValidAction x \<longleftrightarrow> asAction x \<noteq> None"
  by (simp add: isValidAction_def asAction_def)

lemma route_name_checks:
  "nthOpt (splitOn CHR ''.'' name) 0 \<noteq> Some resource \<Longrightarrow>
     \<exists>got. route resource pre singular tr base name ps = Inl (InvalidResource resource got)"
  "nthOpt (splitOn CHR ''.'' name) 0 = Some resource \<Longrightarrow>
   nthOpt (splitOn CHR ''.'' name) 1 = None \<or>
     (\<exists>a. nthOpt (splitOn CHR ''.'' name) 1 = Some a \<and> \<not> isValidAction a) \<Longrightarrow>
     \<exists>got. route resource pre singular tr base name ps = Inl (InvalidAction got)"
  by (auto simp: route_def Let_def)

subsection \<open>The store version computes what the state-passing version does\<close>

lemma agrees_Inl: "agrees a res (Inl e) \<longleftrightarrow> fst res = Inl e"
  by (simp add: agrees_def)

lemma agrees_Inr: "agrees a res (Inr (out, u)) \<longleftrightarrow> fst res = Inr out \<and> cells (snd res) a = u"
  by (simp add: agrees_def)

lemma cells_setAdd: "cells (setAdd a k h) a = insert k (cells h a)"
  by (simp add: setAdd_def)

lemma replaceAllH_agrees:
  "agrees a (replaceAllH t ps a h) (replaceAll t ps (cells h a))"
proof (induction t ps a h rule: replaceAllH.induct)
  case (1 ps used h)
  show ?case by (simp add: agrees_Inr)
next
  case (2 c cs ps used h)
  show ?case
  proof (cases "matchToken (c # cs)")
    case None
    obtain r h' where rec: "replaceAllH cs ps used h = (r, h')"
      by (cases "replaceAllH cs ps used h")
    from None "2.IH"(1) have ih: "agrees used (r, h') (replaceAll cs ps (cells h used))"
      by (simp add: rec)
    show ?thesis
    proof (cases "replaceAll cs ps (cells h used)")
      case (Inl e)
      with ih None rec show ?thesis
        by (simp add: replaceAllH.simps(2) replaceAll.simps(2) agrees_Inl)
    next
      case (Inr ou)
      obtain out u where "ou = (out, u)" by (cases ou)
      with Inr ih None rec show ?thesis
        by (simp add: replaceAllH.simps(2) replaceAll.simps(2) agrees_Inr)
    qed
  next
    case (Some kr)
    obtain key rest where kr: "kr = (key, rest)" by (cases kr)
    show ?thesis
    proof (cases "hasKey ps key")
      case False
      with Some kr show ?thesis
        by (simp add: replaceAllH.simps(2) replaceAll.simps(2) agrees_Inl)
    next
      case True
      obtain r h' where rec: "replaceAllH rest ps used (setAdd used key h) = (r, h')"
        by (cases "replaceAllH rest ps used (setAdd used key h)")
      from True have "\<not> \<not> hasKey ps key" by simp
      with "2.IH"(2) [OF Some kr [symmetric]] have
        "agrees used (replaceAllH rest ps used (setAdd used key h))
           (replaceAll rest ps (cells (setAdd used key h) used))" .
      then have ih: "agrees used (r, h') (replaceAll rest ps (insert key (cells h used)))"
        by (simp only: rec cells_setAdd)
      show ?thesis
      proof (cases "replaceAll rest ps (insert key (cells h used))")
        case (Inl e)
        with ih True Some kr rec show ?thesis
          by (simp add: replaceAllH.simps(2) replaceAll.simps(2) agrees_Inl)
      next
        case (Inr ou)
        obtain out u where "ou = (out, u)" by (cases ou)
        with Inr ih True Some kr rec show ?thesis
          by (simp add: replaceAllH.simps(2) replaceAll.simps(2) agrees_Inr)
      qed
    qed
  qed
qed

lemma replaceTokensH_agrees:
  "agrees a (replaceTokensH t ps a h) (replaceTokens t ps (cells h a))"
proof (cases "t = []")
  case True
  then show ?thesis
    by (simp add: replaceTokensH_def replaceTokens_def agrees_Inr)
next
  case False
  obtain r h' where rec: "replaceAllH t ps a h = (r, h')"
    by (cases "replaceAllH t ps a h")
  have ih: "agrees a (r, h') (replaceAll t ps (cells h a))"
    using replaceAllH_agrees [of a t ps h] by (simp add: rec)
  show ?thesis
  proof (cases "replaceAll t ps (cells h a)")
    case (Inl e)
    with ih False rec show ?thesis
      by (simp add: replaceTokensH_def replaceTokens_def agrees_Inl)
  next
    case (Inr ou)
    obtain out u where "ou = (out, u)" by (cases ou)
    with Inr ih False rec show ?thesis
      by (simp add: replaceTokensH_def replaceTokens_def agrees_Inr)
  qed
qed

lemma actionToPathH_agrees:
  "agrees a (actionToPathH act singular ps a h) (actionToPath act singular ps (cells h a))"
proof (cases "needsId act")
  case False
  then show ?thesis
    by (simp add: actionToPathH_def actionToPath_def agrees_Inr)
next
  case True
  show ?thesis
  proof (cases "find (hasKey ps) [singular, ''id'']")
    case None
    with True show ?thesis
      by (simp add: actionToPathH_def actionToPath_def agrees_Inl)
  next
    case (Some key)
    show ?thesis
    proof (cases "key = []")
      case True
      with \<open>needsId act\<close> Some show ?thesis
        by (simp add: actionToPathH_def actionToPath_def agrees_Inl)
    next
      case False
      with \<open>needsId act\<close> Some show ?thesis
        by (simp add: actionToPathH_def actionToPath_def agrees_Inr cells_setAdd)
    qed
  qed
qed

lemma buildQueryStringH_eq: "buildQueryStringH ps a h = buildQueryString ps (cells h a)"
  by (simp add: buildQueryStringH_def buildQueryString_def setHas_def)


lemma routeH_result:
  "fst (routeH resource pre singular tr base name ps h)
     = route resource pre singular tr base name ps"
proof (cases "nthOpt (splitOn CHR ''.'' name) 0 = Some resource")
  case False
  then show ?thesis
    by (simp add: routeH_def route_def Let_def)
next
  case res: True
  define parsed where "parsed =
    (case nthOpt (splitOn CHR ''.'' name) (Suc 0) of None \<Rightarrow> None
     | Some a \<Rightarrow> if isValidAction a then asAction a else None)"
  show ?thesis
  proof (cases parsed)
    case None
    with res show ?thesis
      by (simp add: routeH_def route_def Let_def parsed_def)
  next
    case (Some act)
    define a where "a = nextFree h"
    define h0 where "h0 = snd (newSet h)"
    have alloc: "newSet h = (a, h0)" and empty: "cells h0 a = {}"
      by (simp_all add: newSet_def a_def h0_def)
    obtain r1 h1 where rt: "replaceTokensH pre ps a h0 = (r1, h1)"
      by (cases "replaceTokensH pre ps a h0")
    have ag1: "agrees a (r1, h1) (replaceTokens pre ps {})"
      using replaceTokensH_agrees [of a pre ps h0] by (simp add: rt empty)
    have unfoldH: "routeH resource pre singular tr base name ps h =
      (case r1 of
         Inl e \<Rightarrow> (Inl e, h1)
       | Inr prefixPath \<Rightarrow>
           (case actionToPathH act singular ps a h1 of
              (Inl e, h2) \<Rightarrow> (Inl e, h2)
            | (Inr rel, h2) \<Rightarrow>
                (Inr (let url = joinUrl [base, prefixPath, ''/'' @ trimSlashes resource, rel];
                          url' = (if tr \<and> \<not> endsWith url ''/'' then url @ ''/'' else url);
                          qs = buildQueryStringH ps a h2
                      in if qs \<noteq> [] then url' @ ''?'' @ qs else url'), h2)))"
      using res Some unfolding parsed_def
      by (simp add: routeH_def Let_def alloc rt split: sum.splits prod.splits)
    have unfoldP: "route resource pre singular tr base name ps =
      (case replaceTokens pre ps {} of
         Inl e \<Rightarrow> Inl e
       | Inr (prefixPath, used1) \<Rightarrow>
           (case actionToPath act singular ps used1 of
              Inl e \<Rightarrow> Inl e
            | Inr (rel, used2) \<Rightarrow>
                Inr (let url = joinUrl [base, prefixPath, ''/'' @ trimSlashes resource, rel];
                         url' = (if tr \<and> \<not> endsWith url ''/'' then url @ ''/'' else url);
                         qs = buildQueryString ps used2
                     in if qs \<noteq> [] then url' @ ''?'' @ qs else url')))"
      using res Some unfolding parsed_def
      by (simp add: route_def Let_def split: sum.splits prod.splits)
    show ?thesis
    proof (cases "replaceTokens pre ps {}")
      case (Inl e)
      with ag1 have "r1 = Inl e" by (simp add: agrees_Inl)
      with Inl show ?thesis
        by (simp add: unfoldH unfoldP)
    next
      case (Inr pu)
      obtain prefixPath used1 where pu: "pu = (prefixPath, used1)" by (cases pu)
      with Inr ag1 have r1: "r1 = Inr prefixPath" and c1: "cells h1 a = used1"
        by (simp_all add: agrees_Inr)
      obtain r2 h2 where ap: "actionToPathH act singular ps a h1 = (r2, h2)"
        by (cases "actionToPathH act singular ps a h1")
      have ag2: "agrees a (r2, h2) (actionToPath act singular ps used1)"
        using actionToPathH_agrees [of a act singular ps h1] by (simp add: ap c1)
      show ?thesis
      proof (cases "actionToPath act singular ps used1")
        case (Inl e)
        with ag2 have "r2 = Inl e" by (simp add: agrees_Inl)
        with Inl Inr pu r1 ap show ?thesis
          by (simp add: unfoldH unfoldP)
      next
        case inr2: (Inr ru)
        obtain rel used2 where ru: "ru = (rel, used2)" by (cases ru)
        with inr2 ag2 have "r2 = Inr rel" and "cells h2 a = used2"
          by (simp_all add: agrees_Inr)
        with inr2 ru Inr pu r1 ap show ?thesis
          by (simp add: unfoldH unfoldP buildQueryStringH_eq)
      qed
    qed
  qed
qed

text \<open>
  C8. The result of a call of the route function does not depend on the store in which
  the call is made: with the same name and parameters it is the same URL, or the same
  error, in any two stores, in particular in the store that an earlier call with these
  arguments has left. Every call works on a set of used keys of its own, newly
  allocated, and its result is the value of the state-passing function
  \<open>createLaravelResourceResolver\<close>, which has no state to read.
\<close>

theorem route_deterministic:
  "fst (createLaravelResourceResolverH resource opts name ps h1)
     = fst (createLaravelResourceResolverH resource opts name ps h2) \<and>
   fst (createLaravelResourceResolverH resource opts name ps
          (snd (createLaravelResourceResolverH resource opts name ps h)))
     = fst (createLaravelResourceResolverH resource opts name ps h) \<and>
   fst (createLaravelResourceResolverH resource opts name ps h)
     = createLaravelResourceResolver resource opts name ps"
  by (simp add: createLaravelResourceResolverH_def createLaravelResourceResolver_def
        routeH_result)

end
